theory Spec2Isabelle
  imports
    Complex_Main
    "HOL-Library.Product_Lexorder"
    "HOL-Library.List_Lexorder"
    "HOL-Library.Char_ord"
    "HOL-Library.Option_ord"
    "HOL-Library.Sublist"
begin

section \<open>The route planner of \<^verbatim>\<open>route_planner.py\<close>\<close>

text \<open>
  The planner searches a transit network for the best route between two stations under one
  of three criteria (\<^verbatim>\<open>tiempo\<close>, \<^verbatim>\<open>saltos\<close>, \<^verbatim>\<open>transbordos\<close>). The
  embedding follows the Python source function by function. Python's \<^verbatim>\<open>int\<close> is
  \<^typ>\<open>int\<close>, a \<^verbatim>\<open>str\<close> is a \<^typ>\<open>string\<close>, \<^verbatim>\<open>None\<close> is \<^const>\<open>None\<close>,
  a dictionary is a map, an exception is the left summand of a result, and every mutation
  of the knowledge base is passed on explicitly.
\<close>

subsection \<open>Data\<close>

type_synonym station = string
type_synonym line = string
type_synonym coord = "real \<times> real"

text \<open>An entry \<^verbatim>\<open>[a, b, line, t]\<close> of \<^verbatim>\<open>data["links"]\<close>.\<close>
type_synonym link = "station \<times> station \<times> line \<times> int"

text \<open>An entry \<^verbatim>\<open>(vecina, linea, tiempo)\<close> of an adjacency list.\<close>
type_synonym edge = "station \<times> line \<times> int"

text \<open>A search state \<^verbatim>\<open>(estacion, linea_anterior)\<close>.\<close>
type_synonym state = "station \<times> line option"

text \<open>The exceptions the source can raise: a missing dictionary key, and the
  \<^verbatim>\<open>ValueError("Criterio no soportado")\<close> of \<^verbatim>\<open>a_star\<close>.\<close>
datatype error = KeyError | ValueError

record dataset =
  stations :: "station \<rightharpoonup> coord"
  links :: "link list"
  transfer_penalty :: int

record KnowledgeBase =
  data :: dataset
  graph_kb :: "station \<rightharpoonup> edge list"
  lines_by_station :: "station \<rightharpoonup> line set"

subsection \<open>KnowledgeBase\<close>

text \<open>\<^verbatim>\<open>self.graph[a].append(e)\<close> on a \<^verbatim>\<open>defaultdict(list)\<close>: a missing key starts
  from the empty list.\<close>
definition graph_append :: "(station \<rightharpoonup> edge list) \<Rightarrow> station \<Rightarrow> edge \<Rightarrow> (station \<rightharpoonup> edge list)" where
  "graph_append g a e = g(a \<mapsto> (case g a of None \<Rightarrow> [] | Some l \<Rightarrow> l) @ [e])"

text \<open>\<^verbatim>\<open>self.lines_by_station[a].add(line)\<close> on a \<^verbatim>\<open>defaultdict(set)\<close>.\<close>
definition lines_add :: "(station \<rightharpoonup> line set) \<Rightarrow> station \<Rightarrow> line \<Rightarrow> (station \<rightharpoonup> line set)" where
  "lines_add m a l = m(a \<mapsto> insert l (case m a of None \<Rightarrow> {} | Some S \<Rightarrow> S))"

fun add_link :: "(station \<rightharpoonup> edge list) \<Rightarrow> link \<Rightarrow> (station \<rightharpoonup> edge list)" where
  "add_link g (a, b, line, t) = graph_append (graph_append g a (b, line, t)) b (a, line, t)"

fun add_lines :: "(station \<rightharpoonup> line set) \<Rightarrow> link \<Rightarrow> (station \<rightharpoonup> line set)" where
  "add_lines m (a, b, line, t) = lines_add (lines_add m a line) b line"

text \<open>\<^verbatim>\<open>KnowledgeBase.__init__\<close>: two passes over the links. The body has no check and no
  \<^verbatim>\<open>raise\<close>; the result type keeps the error summand so that this can be stated.\<close>
definition KnowledgeBase_init :: "dataset \<Rightarrow> error + KnowledgeBase" where
  "KnowledgeBase_init d =
     Inr \<lparr> data = d,
           graph_kb = foldl add_link Map.empty (links d),
           lines_by_station = foldl add_lines Map.empty (links d) \<rparr>"

text \<open>R1, \<^verbatim>\<open>neighbors\<close>: \<^verbatim>\<open>return self.graph[station]\<close>. Reading a missing key of a
  \<^verbatim>\<open>defaultdict\<close> stores the default under that key, so the knowledge base is returned
  too.\<close>
definition neighbors :: "KnowledgeBase \<Rightarrow> station \<Rightarrow> edge list \<times> KnowledgeBase" where
  "neighbors kb station =
     (case graph_kb kb station of
        Some l \<Rightarrow> (l, kb)
      | None \<Rightarrow> ([], kb\<lparr>graph_kb := (graph_kb kb)(station \<mapsto> [])\<rparr>))"

text \<open>R2, \<^verbatim>\<open>is_transfer\<close>: \<^verbatim>\<open>prev_line is not None and next_line != prev_line\<close>.\<close>
definition is_transfer :: "line option \<Rightarrow> line \<Rightarrow> bool" where
  "is_transfer prev_line next_line =
     (case prev_line of None \<Rightarrow> False | Some p \<Rightarrow> next_line \<noteq> p)"

text \<open>R3, \<^verbatim>\<open>step_cost\<close>.\<close>
definition step_cost :: "KnowledgeBase \<Rightarrow> int \<Rightarrow> bool \<Rightarrow> int" where
  "step_cost kb base_time transfer =
     base_time + (if transfer then transfer_penalty (data kb) else 0)"

text \<open>R4, \<^verbatim>\<open>is_interchange\<close>: \<^verbatim>\<open>len(self.lines_by_station[station]) > 1\<close>, again on a
  \<^verbatim>\<open>defaultdict\<close>.\<close>
definition is_interchange :: "KnowledgeBase \<Rightarrow> station \<Rightarrow> bool \<times> KnowledgeBase" where
  "is_interchange kb station =
     (case lines_by_station kb station of
        Some S \<Rightarrow> (card S > 1, kb)
      | None \<Rightarrow> (False, kb\<lparr>lines_by_station := (lines_by_station kb)(station \<mapsto> {})\<rparr>))"

text \<open>\<^verbatim>\<open>coords\<close>: \<^verbatim>\<open>self.data["stations"][station]\<close> is a plain dictionary; a missing
  station raises \<^verbatim>\<open>KeyError\<close>.\<close>
definition coords :: "KnowledgeBase \<Rightarrow> station \<Rightarrow> error + coord" where
  "coords kb station =
     (case stations (data kb) station of None \<Rightarrow> Inl KeyError | Some c \<Rightarrow> Inr c)"

subsection \<open>The cost of one step\<close>

text \<open>The \<^verbatim>\<open>if criterio == ... elif ... else raise\<close> chain in the loop of \<^verbatim>\<open>a_star\<close>.\<close>
definition criterio_step :: "KnowledgeBase \<Rightarrow> string \<Rightarrow> int \<Rightarrow> bool \<Rightarrow> error + int" where
  "criterio_step kb criterio base_t transfer =
     (if criterio = ''tiempo'' then Inr (step_cost kb base_t transfer)
      else if criterio = ''saltos'' then Inr (1 + (if transfer then 1 else 0))
      else if criterio = ''transbordos'' then Inr (if transfer then 1 else 0)
      else Inl ValueError)"

subsection \<open>The heuristic\<close>

text \<open>
  \<^verbatim>\<open>haversine\<close> is floating-point code. The search takes it as a parameter
  \<open>hav\<close>, so that what is proved of the search for every \<open>hav\<close> holds of the values
  the floating-point function returns; a priority is a \<^typ>\<open>real\<close>. The nested function
  \<^verbatim>\<open>h\<close> of \<^verbatim>\<open>a_star\<close> reads the coordinates of \<^verbatim>\<open>s\<close>, then those of the goal.
\<close>

definition heuristic_h :: "(coord \<Rightarrow> coord \<Rightarrow> real) \<Rightarrow> KnowledgeBase \<Rightarrow> station \<Rightarrow> station \<Rightarrow> error + real" where
  "heuristic_h hav kb goal s =
     (case coords kb s of
        Inl e \<Rightarrow> Inl e
      | Inr p1 \<Rightarrow> (case coords kb goal of
                     Inl e \<Rightarrow> Inl e
                   | Inr p2 \<Rightarrow> Inr (hav p1 p2 * 2)))"

text \<open>The formula of \<^verbatim>\<open>haversine\<close> read over the real numbers, with
  \<^verbatim>\<open>math.atan2\<close> written out.\<close>

definition radians :: "real \<Rightarrow> real" where
  "radians x = x * pi / 180"

definition atan2 :: "real \<Rightarrow> real \<Rightarrow> real" where
  "atan2 y x =
     (if 0 < x then arctan (y / x)
      else if x < 0 then (if 0 \<le> y then arctan (y / x) + pi else arctan (y / x) - pi)
      else if 0 < y then pi / 2
      else if y < 0 then - (pi / 2)
      else 0)"

definition haversine :: "coord \<Rightarrow> coord \<Rightarrow> real" where
  "haversine p1 p2 =
     (let R = 6371;
          lat1 = radians (fst p1); lon1 = radians (snd p1);
          lat2 = radians (fst p2); lon2 = radians (snd p2);
          dlat = lat2 - lat1;
          dlon = lon2 - lon1;
          a = (sin (dlat / 2))\<^sup>2 + cos lat1 * cos lat2 * (sin (dlon / 2))\<^sup>2;
          c = 2 * atan2 (sqrt a) (sqrt (1 - a))
      in R * c)"

subsection \<open>The frontier\<close>

text \<open>
  The frontier \<^verbatim>\<open>openpq\<close> holds tuples \<^verbatim>\<open>(priority, (station, line))\<close> in a
  \<^verbatim>\<open>heapq\<close>. Python orders tuples lexicographically and strings by code point; two
  entries that compare equal are the same value. So \<^verbatim>\<open>heappop\<close> returns the least
  entry of the frontier and removes one copy of it, whatever the layout of the heap array:
  the frontier is the list of its entries. (\<^verbatim>\<open>None\<close> is placed below every line; the
  only entry with line \<^verbatim>\<open>None\<close> is the start entry, which is alone in the frontier when
  it is popped.)
\<close>

type_synonym entry = "real \<times> state"

definition heappush :: "entry list \<Rightarrow> entry \<Rightarrow> entry list" where
  "heappush pq e = pq @ [e]"

definition heappop :: "entry list \<Rightarrow> entry \<times> entry list" where
  "heappop pq = (let m = Min (set pq) in (m, remove1 m pq))"

subsection \<open>a_star\<close>

text \<open>The dictionaries of one search. \<^verbatim>\<open>g_cost.get(k, float('inf'))\<close> is a lookup in
  which \<^const>\<open>None\<close> stands for infinity.\<close>

record search =
  openpq :: "entry list"
  g_cost :: "state \<rightharpoonup> int"
  parents :: "state \<rightharpoonup> state option"
  used_line :: "state \<rightharpoonup> line option"

text \<open>\<^verbatim>\<open>tentative_g < g_cost.get(new_state, float('inf'))\<close>.\<close>
definition less_inf :: "int \<Rightarrow> int option \<Rightarrow> bool" where
  "less_inf x y = (case y of None \<Rightarrow> True | Some v \<Rightarrow> x < v)"

text \<open>The \<^verbatim>\<open>for v, line, base_t in kb.neighbors(u)\<close> loop, on the list that
  \<^verbatim>\<open>neighbors\<close> returned. The dictionaries are written before \<^verbatim>\<open>h(v)\<close> is called.\<close>
fun a_star_for :: "(coord \<Rightarrow> coord \<Rightarrow> real) \<Rightarrow> KnowledgeBase \<Rightarrow> station \<Rightarrow> string \<Rightarrow> state
     \<Rightarrow> edge list \<Rightarrow> search \<Rightarrow> error + search" where
  "a_star_for hav kb goal criterio (u, last_line) [] s = Inr s"
| "a_star_for hav kb goal criterio (u, last_line) ((v, line, base_t) # rest) s =
     (let transfer = is_transfer last_line line in
      case criterio_step kb criterio base_t transfer of
        Inl e \<Rightarrow> Inl e
      | Inr step \<Rightarrow>
          (let new_state = (v, Some line) in
           case g_cost s (u, last_line) of
             None \<Rightarrow> Inl KeyError
           | Some gu \<Rightarrow>
               (let tentative_g = gu + step in
                if less_inf tentative_g (g_cost s new_state) then
                  (let s1 = s\<lparr> g_cost := (g_cost s)(new_state \<mapsto> tentative_g),
                                parents := (parents s)(new_state \<mapsto> Some (u, last_line)),
                                used_line := (used_line s)(new_state \<mapsto> Some line) \<rparr> in
                   case (if criterio = ''tiempo'' then heuristic_h hav kb goal v else Inr 0) of
                     Inl e \<Rightarrow> Inl e
                   | Inr hv \<Rightarrow>
                       a_star_for hav kb goal criterio (u, last_line) rest
                         (s1\<lparr> openpq := heappush (openpq s1) (of_int tentative_g + hv, new_state) \<rparr>))
                else a_star_for hav kb goal criterio (u, last_line) rest s)))"

text \<open>The reconstruction loop \<^verbatim>\<open>while cur is not None: path.append(cur); cur = parents[cur]\<close>.
  Nothing in the loop bounds it, so not returning is the value \<^const>\<open>None\<close>.\<close>
partial_function (option) reconstruct :: "(state \<rightharpoonup> state option) \<Rightarrow> state option \<Rightarrow> state list
     \<Rightarrow> (error + state list) option" where
  "reconstruct par cur path =
     (case cur of
        None \<Rightarrow> Some (Inr path)
      | Some c \<Rightarrow> (case par c of
                     None \<Rightarrow> Some (Inl KeyError)
                   | Some p \<Rightarrow> reconstruct par p (path @ [c])))"

text \<open>The result of a search: \<^verbatim>\<open>(path, g)\<close>, or \<^verbatim>\<open>(None, float('inf'))\<close> as
  \<open>(None, None)\<close>.\<close>
type_synonym route = "state list option \<times> int option"

text \<open>The \<^verbatim>\<open>while openpq\<close> loop. It returns the result or the exception, and the
  knowledge base as the calls of \<^verbatim>\<open>neighbors\<close> left it.\<close>
partial_function (option) a_star_while :: "(coord \<Rightarrow> coord \<Rightarrow> real) \<Rightarrow> station \<Rightarrow> string
     \<Rightarrow> search \<Rightarrow> KnowledgeBase \<Rightarrow> ((error + route) \<times> KnowledgeBase) option" where
  "a_star_while hav goal criterio s kb =
     (if openpq s = [] then Some (Inr (None, None), kb)
      else
        (case heappop (openpq s) of (popped, pq') \<Rightarrow>
           (case snd popped of (u, last_line) \<Rightarrow>
              if u = goal then
                Option.bind (reconstruct (parents s) (Some (u, last_line)) [])
                  (\<lambda>r. case r of
                          Inl e \<Rightarrow> Some (Inl e, kb)
                        | Inr path \<Rightarrow>
                            (case g_cost s (u, last_line) of
                               None \<Rightarrow> Some (Inl KeyError, kb)
                             | Some g \<Rightarrow> Some (Inr (Some (rev path), Some g), kb)))
              else
                (case neighbors kb u of (ns, kb') \<Rightarrow>
                   (case a_star_for hav kb' goal criterio (u, last_line) ns (s\<lparr>openpq := pq'\<rparr>) of
                      Inl e \<Rightarrow> Some (Inl e, kb')
                    | Inr s' \<Rightarrow> a_star_while hav goal criterio s' kb')))))"

definition a_star :: "(coord \<Rightarrow> coord \<Rightarrow> real) \<Rightarrow> KnowledgeBase \<Rightarrow> station \<Rightarrow> station \<Rightarrow> string
     \<Rightarrow> ((error + route) \<times> KnowledgeBase) option" where
  "a_star hav kb start goal criterio =
     (let start_state = (start, None);
          s0 = \<lparr> openpq = heappush [] (0, start_state),
                 g_cost = [start_state \<mapsto> 0],
                 parents = [start_state \<mapsto> None],
                 used_line = [start_state \<mapsto> None] \<rparr>
      in a_star_while hav goal criterio s0 kb)"

subsection \<open>explain_route\<close>

text \<open>The accumulators of \<^verbatim>\<open>explain_route\<close>; an entry of \<^verbatim>\<open>lines\<close> is
  \<^verbatim>\<open>(u, v, line, base_t, penalty)\<close>.\<close>

type_synonym segment = "station \<times> station \<times> line \<times> int \<times> int"

record tally =
  lines :: "segment list"
  transbordos :: int
  saltos :: int
  total_tiempo :: int

text \<open>\<^verbatim>\<open>next((L for L in kb.neighbors(u) if L[0] == v), None)\<close>.\<close>
definition find_link :: "edge list \<Rightarrow> station \<Rightarrow> edge option" where
  "find_link ns v = find (\<lambda>L. fst L = v) ns"

text \<open>The body of \<^verbatim>\<open>for i in range(len(path_states)-1)\<close>. Every index read is in range:
  \<open>i + 1 < length path_states\<close>, and \<open>i - 1\<close> is read only when \<open>i > 0\<close>.\<close>
definition explain_body :: "state list \<Rightarrow> nat \<Rightarrow> tally \<times> KnowledgeBase \<Rightarrow> tally \<times> KnowledgeBase" where
  "explain_body path_states i tk =
     (case tk of (acc, kb) \<Rightarrow>
      case path_states ! i of (u, line_u) \<Rightarrow>
      case path_states ! (i + 1) of (v, line_v) \<Rightarrow>
      case neighbors kb u of (ns, kb') \<Rightarrow>
        (case find_link ns v of
           None \<Rightarrow> (acc, kb')
         | Some (w, line, base_t) \<Rightarrow>
             (let transfer = (i > 0 \<and> snd (path_states ! i) \<noteq> snd (path_states ! (i - 1))
                               \<and> snd (path_states ! i) \<noteq> None);
                  penalty = (if transfer then transfer_penalty (data kb') else 0)
              in (acc\<lparr> total_tiempo := total_tiempo acc + (base_t + penalty),
                       saltos := saltos acc + 1,
                       transbordos := (if transfer then transbordos acc + 1 else transbordos acc),
                       lines := lines acc @ [(u, v, line, base_t, penalty)] \<rparr>, kb'))))"

text \<open>The glyphs of the rendered route, as their UTF-8 bytes: U+2500, U+2192, U+21C4, and
  the accented letter of the message for an empty path.\<close>

definition glyph_dash :: string where
  "glyph_dash = [CHR 0xE2, CHR 0x94, CHR 0x80]"

definition glyph_arrow :: string where
  "glyph_arrow = [CHR 0xE2, CHR 0x86, CHR 0x92]"

definition glyph_swap :: string where
  "glyph_swap = [CHR 0xE2, CHR 0x87, CHR 0x84]"

definition no_route_message :: string where
  "no_route_message = ''No se encontr'' @ [CHR 0xC3, CHR 0xB3] @ '' ruta.''"

text \<open>The second loop, which builds \<^verbatim>\<open>steps\<close> from \<^verbatim>\<open>lines\<close>.\<close>
fun render_steps :: "line option \<Rightarrow> segment list \<Rightarrow> string list" where
  "render_steps prev_line [] = []"
| "render_steps prev_line ((u, v, line, base_t, penalty) # rest) =
     (case prev_line of
        None \<Rightarrow> [u @ '' '' @ glyph_dash @ glyph_dash @ ''('' @ line @ '')'' @ glyph_arrow @ '' '' @ v]
      | Some p \<Rightarrow>
          if line \<noteq> p then
            [''[Transbordo] '' @ u @ '' '' @ glyph_swap @ '' '' @ v,
             u @ '' '' @ glyph_dash @ glyph_dash @ ''('' @ line @ '')'' @ glyph_arrow @ '' '' @ v]
          else [u @ '' '' @ glyph_arrow @ '' '' @ v])
     @ render_steps (Some line) rest"

text \<open>\<^verbatim>\<open>"\n".join(steps)\<close>.\<close>
fun join_lines :: "string list \<Rightarrow> string" where
  "join_lines [] = []"
| "join_lines [x] = x"
| "join_lines (x # y # ys) = x @ [CHR 0x0A] @ join_lines (y # ys)"

definition explain_route :: "KnowledgeBase \<Rightarrow> state list
     \<Rightarrow> (string \<times> int \<times> int \<times> int) \<times> KnowledgeBase" where
  "explain_route kb path_states =
     (if path_states = [] then ((no_route_message, 0, 0, 0), kb)
      else
        (case fold (explain_body path_states) [0 ..< length path_states - 1]
                (\<lparr> lines = [], transbordos = 0, saltos = 0, total_tiempo = 0 \<rparr>, kb)
         of (acc, kb') \<Rightarrow>
           (let steps = render_steps None (lines acc);
                last_station = fst (last path_states);
                steps = (if steps = [] \<or> \<not> suffix last_station (last steps)
                         then steps @ [last_station] else steps);
                route_str = join_lines steps
            in ((route_str, total_tiempo acc, transbordos acc, saltos acc), kb'))))"

section \<open>Notions used in the statements\<close>

text \<open>The adjacency list that a lookup in the \<^verbatim>\<open>defaultdict\<close> returns, without the
  insertion: the empty list for a missing key.\<close>
definition adj :: "(station \<rightharpoonup> edge list) \<Rightarrow> station \<Rightarrow> edge list" where
  "adj g u = (case g u of None \<Rightarrow> [] | Some l \<Rightarrow> l)"

subsection \<open>Concrete networks\<close>

text \<open>Stations A, B, C with a link A-B on line 1 (5 minutes) and a link B-C on line
  \<open>l2\<close> (4 minutes), penalty 3; \<open>st\<close> holds the coordinates.\<close>

definition abc_data :: "(station \<rightharpoonup> coord) \<Rightarrow> line \<Rightarrow> dataset" where
  "abc_data st l2 =
     \<lparr> stations = st,
       links = [(''A'', ''B'', ''1'', 5), (''B'', ''C'', l2, 4)],
       transfer_penalty = 3 \<rparr>"

definition abc_kb :: "(station \<rightharpoonup> coord) \<Rightarrow> line \<Rightarrow> KnowledgeBase" where
  "abc_kb st l2 =
     \<lparr> data = abc_data st l2,
       graph_kb = [''A'' \<mapsto> [(''B'', ''1'', 5)],
                   ''B'' \<mapsto> [(''A'', ''1'', 5), (''C'', l2, 4)],
                   ''C'' \<mapsto> [(''B'', l2, 4)]],
       lines_by_station = [''A'' \<mapsto> {''1''}, ''B'' \<mapsto> {''1'', l2}, ''C'' \<mapsto> {l2}] \<rparr>"

definition abc_coords :: "station \<rightharpoonup> coord" where
  "abc_coords = [''A'' \<mapsto> (0, 0), ''B'' \<mapsto> (0, 1), ''C'' \<mapsto> (0, 2)]"

text \<open>A dataset with a negative link time and no coordinates at all.\<close>

definition neg_data :: dataset where
  "neg_data = \<lparr> stations = Map.empty, links = [(''A'', ''B'', ''1'', - 5)], transfer_penalty = 3 \<rparr>"

definition neg_kb :: KnowledgeBase where
  "neg_kb =
     \<lparr> data = neg_data,
       graph_kb = [''A'' \<mapsto> [(''B'', ''1'', - 5)], ''B'' \<mapsto> [(''A'', ''1'', - 5)]],
       lines_by_station = [''A'' \<mapsto> {''1''}, ''B'' \<mapsto> {''1''}] \<rparr>"

subsection \<open>Steps, routes and their costs\<close>

text \<open>The state an edge leads to.\<close>

definition target :: "edge \<Rightarrow> state" where
  "target e = (fst e, Some (fst (snd e)))"

text \<open>The cost of the step over edge e from a state whose line is l.\<close>

definition step_w :: "KnowledgeBase \<Rightarrow> string \<Rightarrow> line option \<Rightarrow> edge \<Rightarrow> int" where
  "step_w kb criterio l e =
     (case criterio_step kb criterio (snd (snd e)) (is_transfer l (fst (snd e))) of
        Inl err \<Rightarrow> 0 | Inr w \<Rightarrow> w)"

text \<open>The writes of one improving step of the for loop.\<close>

definition relax :: "search \<Rightarrow> state \<Rightarrow> edge \<Rightarrow> int \<Rightarrow> real \<Rightarrow> search" where
  "relax s x e tg hv =
     s\<lparr> g_cost := (g_cost s)(target e \<mapsto> tg),
        parents := (parents s)(target e \<mapsto> Some x),
        used_line := (used_line s)(target e \<mapsto> Some (fst (snd e))),
        openpq := openpq s @ [(of_int tg + hv, target e)] \<rparr>"

text \<open>The heuristic term of the priority in the for loop:
  \<^verbatim>\<open>h(v) if criterio == "tiempo" else 0\<close>.\<close>
definition hres :: "(coord \<Rightarrow> coord \<Rightarrow> real) \<Rightarrow> KnowledgeBase \<Rightarrow> station \<Rightarrow> string \<Rightarrow> station \<Rightarrow> error + real" where
  "hres hav kb goal criterio v = (if criterio = ''tiempo'' then heuristic_h hav kb goal v else Inr 0)"

text \<open>A route from station \<open>a\<close> is a list of edges, each taken from the adjacency list of the
  station the route has reached. It may visit a station many times.\<close>
fun route_ok :: "KnowledgeBase \<Rightarrow> station \<Rightarrow> edge list \<Rightarrow> bool" where
  "route_ok kb a [] = True"
| "route_ok kb a (e # es) = (e \<in> set (adj (graph_kb kb) a) \<and> route_ok kb (fst e) es)"

text \<open>The station a route ends in, and the line of its last edge.\<close>
fun route_end :: "station \<Rightarrow> edge list \<Rightarrow> station" where
  "route_end a [] = a"
| "route_end a (e # es) = route_end (fst e) es"

fun route_line :: "line option \<Rightarrow> edge list \<Rightarrow> line option" where
  "route_line l [] = l"
| "route_line l (e # es) = route_line (Some (fst (snd e))) es"


text \<open>The states a route passes through: what \<^verbatim>\<open>a_star\<close> returns as its path.\<close>
fun route_states :: "state \<Rightarrow> edge list \<Rightarrow> state list" where
  "route_states x [] = [x]"
| "route_states x (e # es) = x # route_states (target e) es"

subsection \<open>Invariants of the search\<close>

text \<open>\<open>traced kb criterio start s x es\<close>: following \<^verbatim>\<open>parents\<close> from \<open>x\<close> leads to the
  start state along the edges \<open>es\<close> in reverse, and along the chain the best-known cost of a
  state is at least that of its parent plus the cost of the step.\<close>
inductive traced :: "KnowledgeBase \<Rightarrow> string \<Rightarrow> station \<Rightarrow> search \<Rightarrow> state \<Rightarrow> edge list \<Rightarrow> bool"
  for kb criterio start s where
  tr_start: "g_cost s (start, None) = Some 0 \<Longrightarrow> parents s (start, None) = Some None
             \<Longrightarrow> traced kb criterio start s (start, None) []"
| tr_step: "traced kb criterio start s y es \<Longrightarrow> parents s x = Some (Some y)
             \<Longrightarrow> e \<in> set (adj (graph_kb kb) (fst y)) \<Longrightarrow> x = target e
             \<Longrightarrow> g_cost s y = Some gy \<Longrightarrow> g_cost s x = Some gx
             \<Longrightarrow> gy + step_w kb criterio (snd y) e \<le> gx
             \<Longrightarrow> traced kb criterio start s x (es @ [e])"

text \<open>No step over an edge of the network has a negative cost.\<close>
definition nonneg_steps :: "KnowledgeBase \<Rightarrow> string \<Rightarrow> bool" where
  "nonneg_steps kb criterio =
     (\<forall>u l e. e \<in> set (adj (graph_kb kb) u) \<longrightarrow> 0 \<le> step_w kb criterio l e)"

text \<open>Every state in the frontier has a best-known cost, and every state that has one is
  traced back to the start.\<close>
definition inv_term :: "KnowledgeBase \<Rightarrow> string \<Rightarrow> station \<Rightarrow> search \<Rightarrow> bool" where
  "inv_term kb criterio start s =
     ((\<forall>p x. (p, x) \<in> set (openpq s) \<longrightarrow> g_cost s x \<noteq> None)
      \<and> (\<forall>x. g_cost s x \<noteq> None \<longrightarrow> (\<exists>es. traced kb criterio start s x es)))"

text \<open>The network has finitely many edges; \<^const>\<open>KnowledgeBase_init\<close> builds no other.\<close>
definition finite_net :: "KnowledgeBase \<Rightarrow> bool" where
  "finite_net kb = finite (\<Union>u. set (adj (graph_kb kb) u))"

text \<open>The states a search can reach, and the two quantities that a push lowers: the number of
  states without a best-known cost, and the sum of the best-known costs.\<close>
definition space :: "KnowledgeBase \<Rightarrow> station \<Rightarrow> state set" where
  "space kb start = insert (start, None) (target ` (\<Union>u. set (adj (graph_kb kb) u)))"

definition m1 :: "KnowledgeBase \<Rightarrow> station \<Rightarrow> search \<Rightarrow> nat" where
  "m1 kb start s = card (space kb start - dom (g_cost s))"

definition m2 :: "search \<Rightarrow> nat" where
  "m2 s = nat (\<Sum>x \<in> dom (g_cost s). the (g_cost s x))"

definition gm_less :: "KnowledgeBase \<Rightarrow> station \<Rightarrow> search \<Rightarrow> search \<Rightarrow> bool" where
  "gm_less kb start s' s = (m1 kb start s' < m1 kb start s \<or> m1 kb start s' = m1 kb start s \<and> m2 s' < m2 s)"

text \<open>Two knowledge bases that differ at most in keys of the adjacency mapping that hold the
  empty list.\<close>
definition same_net :: "KnowledgeBase \<Rightarrow> KnowledgeBase \<Rightarrow> bool" where
  "same_net kb0 kb = (data kb = data kb0 \<and> adj (graph_kb kb) = adj (graph_kb kb0))"

text \<open>The invariant of the data model: no link time and no penalty is negative.\<close>
definition nonneg_data :: "dataset \<Rightarrow> bool" where
  "nonneg_data d = ((\<forall>(a, b, l, t) \<in> set (links d). 0 \<le> t) \<and> 0 \<le> transfer_penalty d)"

text \<open>The dictionaries and the frontier as \<^verbatim>\<open>a_star\<close> sets them up before the loop.\<close>
definition start_search :: "station \<Rightarrow> search" where
  "start_search start =
     \<lparr> openpq = heappush [] (0, (start, None)),
       g_cost = [(start, None) \<mapsto> 0],
       parents = [(start, None) \<mapsto> None],
       used_line = [(start, None) \<mapsto> None] \<rparr>"

text \<open>The three criteria.\<close>
definition supported :: "string \<Rightarrow> bool" where
  "supported criterio = (criterio = ''tiempo'' \<or> criterio = ''saltos'' \<or> criterio = ''transbordos'')"

text \<open>Every station of a link, and the goal, has a coordinates entry.\<close>
definition coords_ok :: "dataset \<Rightarrow> station \<Rightarrow> bool" where
  "coords_ok d goal =
     ((\<forall>(a, b, l, t) \<in> set (links d). stations d a \<noteq> None \<and> stations d b \<noteq> None)
      \<and> stations d goal \<noteq> None)"

text \<open>The heuristic term is computed without an exception at every station an edge leads to.\<close>
definition hres_ok :: "(coord \<Rightarrow> coord \<Rightarrow> real) \<Rightarrow> KnowledgeBase \<Rightarrow> station \<Rightarrow> string \<Rightarrow> bool" where
  "hres_ok hav kb goal criterio =
     (\<forall>u e. e \<in> set (adj (graph_kb kb) u) \<longrightarrow> (\<exists>hv. hres hav kb goal criterio (fst e) = Inr hv))"

text \<open>No route from the start ends in the goal; the empty route makes the two differ.\<close>
definition unreachable :: "KnowledgeBase \<Rightarrow> station \<Rightarrow> station \<Rightarrow> bool" where
  "unreachable kb start goal = (\<forall>es. route_ok kb start es \<longrightarrow> route_end start es \<noteq> goal)"



text \<open>\<open>kb'\<close> is \<open>kb\<close> up to adjacency entries that hold the empty list where \<open>kb\<close> has none.\<close>
definition same_but_defaults :: "KnowledgeBase \<Rightarrow> KnowledgeBase \<Rightarrow> bool" where
  "same_but_defaults kb kb' =
     (data kb' = data kb \<and> lines_by_station kb' = lines_by_station kb
      \<and> (\<forall>s. graph_kb kb' s = graph_kb kb s \<or> (graph_kb kb s = None \<and> graph_kb kb' s = Some [])))"












section \<open>Properties\<close>

subsection \<open>The knowledge base\<close>

lemma fst_neighbors: "fst (neighbors kb u) = adj (graph_kb kb) u"
  by (simp add: neighbors_def adj_def split: option.splits)

lemma adj_graph_append:
  "adj (graph_append g a e) u = (if u = a then adj g a @ [e] else adj g u)"
  by (simp add: graph_append_def adj_def)

lemma adj_add_link:
  "set (adj (add_link g (a, b, l, t)) u) =
     set (adj g u) \<union> (if u = a then {(b, l, t)} else {}) \<union> (if u = b then {(a, l, t)} else {})"
  by (auto simp: adj_graph_append)

lemma adj_foldl_add_link:
  "set (adj (foldl add_link g ls) u) =
     set (adj g u) \<union> {(b, l, t) | b l t. (u, b, l, t) \<in> set ls}
       \<union> {(a, l, t) | a l t. (a, u, l, t) \<in> set ls}"
proof (induction ls arbitrary: g)
  case Nil
  show ?case by simp
next
  case (Cons x ls)
  obtain a b l t where x: "x = (a, b, l, t)" by (cases x) auto
  show ?case unfolding foldl_Cons Cons.IH x adj_add_link by auto
qed

lemma abc_init: "KnowledgeBase_init (abc_data st l2) = Inr (abc_kb st l2)"
  by (auto simp: KnowledgeBase_init_def abc_data_def abc_kb_def graph_append_def lines_add_def
      fun_eq_iff)

lemmas search_defs = heappop_def heappush_def neighbors_def is_transfer_def criterio_step_def
  step_cost_def less_inf_def heuristic_h_def coords_def Let_def

text \<open>
  C5, as the code has it. \<^verbatim>\<open>__init__\<close> validates nothing: for every dataset it returns a
  knowledge base that keeps the dataset and holds each link in both adjacency lists with
  its time as given, whatever its sign; a station without coordinates is noticed only by
  \<^verbatim>\<open>coords\<close>, as a \<^verbatim>\<open>KeyError\<close>.
\<close>

theorem init_never_fails:
  "\<exists>kb. KnowledgeBase_init d = Inr kb \<and> data kb = d
     \<and> (\<forall>(a, b, l, t) \<in> set (links d).
           (b, l, t) \<in> set (fst (neighbors kb a)) \<and> (a, l, t) \<in> set (fst (neighbors kb b)))
     \<and> (\<forall>s. coords kb s = (case stations d s of None \<Rightarrow> Inl KeyError | Some c \<Rightarrow> Inr c))"
  by (auto simp: KnowledgeBase_init_def fst_neighbors adj_foldl_add_link coords_def)

theorem init_never_fails_witness:
  "\<exists>kb. KnowledgeBase_init neg_data = Inr kb \<and> data kb = neg_data
     \<and> (''B'', ''1'', - 5) \<in> set (fst (neighbors kb ''A''))
     \<and> coords kb ''A'' = Inl KeyError"
  using init_never_fails [of neg_data] by (auto simp: neg_data_def)

text \<open>C5 as stated fails: the dataset \<^const>\<open>neg_data\<close> has a link of time \<open>-5\<close> between
  two stations without coordinates, and construction returns a knowledge base.\<close>

theorem init_accepts_invalid_data: "KnowledgeBase_init neg_data = Inr neg_kb"
  by (auto simp: KnowledgeBase_init_def neg_data_def neg_kb_def graph_append_def lines_add_def
      fun_eq_iff)

subsection \<open>The cost of a step\<close>


subsection \<open>Searches that are decided in a few steps\<close>

text \<open>
  C9: a search from a station to itself returns the path of the start state alone, with
  cost 0, under every criterion and for every station; \<^verbatim>\<open>explain_route\<close> finds no segment
  in it and returns the totals 0, 0, 0.
\<close>

theorem reflexive_search:
  "a_star hav kb s s criterio = Some (Inr (Some [(s, None)], Some 0), kb)
   \<and> explain_route kb [(s, None)] = ((s, 0, 0, 0), kb)"
  by (simp add: a_star_def a_star_while.simps heappush_def heappop_def reconstruct.simps
      explain_route_def)

lemma abc_search_tiempo:
  assumes "st ''A'' = Some cA" "st ''B'' = Some cB" "st ''C'' = Some cC"
  shows "a_star hav (abc_kb st ''2'') ''A'' ''C'' ''tiempo'' =
           Some (Inr (Some [(''A'', None), (''B'', Some ''1''), (''C'', Some ''2'')], Some 12),
                 abc_kb st ''2'')"
proof (cases "(10 + hav cA cC * 2, (''A'', Some ''1'')) \<le> (12 + hav cC cC * 2, (''C'', Some ''2''))")
  case True
  then have m: "min (10 + hav cA cC * 2, (''A'', Some ''1'')) (12 + hav cC cC * 2, (''C'', Some ''2''))
                  = (10 + hav cA cC * 2, (''A'', Some ''1''))"
    by (simp add: min_def)
  show ?thesis using assms
    by (simp add: a_star_def a_star_while.simps search_defs reconstruct.simps abc_kb_def
        abc_data_def m)
next
  case False
  then have m: "min (10 + hav cA cC * 2, (''A'', Some ''1'')) (12 + hav cC cC * 2, (''C'', Some ''2''))
                  = (12 + hav cC cC * 2, (''C'', Some ''2''))"
    by (simp add: min_def)
  show ?thesis using assms
    by (simp add: a_star_def a_star_while.simps search_defs reconstruct.simps abc_kb_def
        abc_data_def m)
qed

lemma abc_explain:
  "snd (fst (explain_route (abc_kb st l2) [(''A'', None), (''B'', Some ''1''), (''C'', Some l2)]))
     = (12, 1, 2)"
  by (simp add: explain_route_def explain_body_def abc_kb_def abc_data_def neighbors_def
      find_link_def upt_rec Let_def)

text \<open>
  C4: on the network A-B (line 1, 5 minutes), B-C (line 2, 4 minutes) with penalty 3, built
  by the constructor, the search from A to C under \<^verbatim>\<open>tiempo\<close> returns the path A, B, C
  with cost 12, and \<^verbatim>\<open>explain_route\<close> returns total time 12, 1 transfer and 2 hops. This
  holds for all coordinates of the three stations and all values of the heuristic.
\<close>

theorem abc_transfer_accounting:
  assumes "st ''A'' = Some cA" "st ''B'' = Some cB" "st ''C'' = Some cC"
  shows "KnowledgeBase_init (abc_data st ''2'') = Inr (abc_kb st ''2'')
     \<and> a_star hav (abc_kb st ''2'') ''A'' ''C'' ''tiempo'' =
           Some (Inr (Some [(''A'', None), (''B'', Some ''1''), (''C'', Some ''2'')], Some 12),
                 abc_kb st ''2'')
     \<and> snd (fst (explain_route (abc_kb st ''2'')
                    [(''A'', None), (''B'', Some ''1''), (''C'', Some ''2'')])) = (12, 1, 2)"
  using abc_search_tiempo [OF assms] abc_init abc_explain by simp

theorem abc_transfer_accounting_witness:
  "KnowledgeBase_init (abc_data abc_coords ''2'') = Inr (abc_kb abc_coords ''2'')
     \<and> a_star haversine (abc_kb abc_coords ''2'') ''A'' ''C'' ''tiempo'' =
           Some (Inr (Some [(''A'', None), (''B'', Some ''1''), (''C'', Some ''2'')], Some 12),
                 abc_kb abc_coords ''2'')
     \<and> snd (fst (explain_route (abc_kb abc_coords ''2'')
                    [(''A'', None), (''B'', Some ''1''), (''C'', Some ''2'')])) = (12, 1, 2)"
  using abc_transfer_accounting [of abc_coords "(0, 0)" "(0, 1)" "(0, 2)" haversine]
  by (simp add: abc_coords_def)

subsection \<open>explain_route on a path that stays on one line\<close>

text \<open>
  C3 at the path A, B, C over two links of the same line 1: the search under \<^verbatim>\<open>tiempo\<close>
  returns this path with cost 9, and \<^verbatim>\<open>explain_route\<close> returns total time 12 with 1
  transfer. The flag of segment \<open>i\<close> compares the lines of the states \<open>i\<close> and \<open>i - 1\<close>,
  which are the lines of the two segments before it, and the line of state 0 is
  \<^verbatim>\<open>None\<close>: the second segment of every path is counted as a transfer.
\<close>

theorem explain_route_single_line:
  "a_star (\<lambda>p q. 0) (abc_kb abc_coords ''1'') ''A'' ''C'' ''tiempo'' =
      Some (Inr (Some [(''A'', None), (''B'', Some ''1''), (''C'', Some ''1'')], Some 9),
            abc_kb abc_coords ''1'')
   \<and> snd (fst (explain_route (abc_kb abc_coords ''1'')
                  [(''A'', None), (''B'', Some ''1''), (''C'', Some ''1'')])) = (12, 1, 2)"
  using abc_explain [of abc_coords "''1''"]
  by (simp add: a_star_def a_star_while.simps search_defs reconstruct.simps abc_kb_def
      abc_data_def abc_coords_def)

subsection \<open>The for loop\<close>

lemma a_star_for_Cons:
  "a_star_for hav kb goal criterio x (e # rest) s =
     (case criterio_step kb criterio (snd (snd e)) (is_transfer (snd x) (fst (snd e))) of
        Inl err \<Rightarrow> Inl err
      | Inr w \<Rightarrow>
         (case g_cost s x of
            None \<Rightarrow> Inl KeyError
          | Some gu \<Rightarrow>
              if less_inf (gu + w) (g_cost s (target e)) then
                (case hres hav kb goal criterio (fst e) of
                   Inl err \<Rightarrow> Inl err
                 | Inr hv \<Rightarrow> a_star_for hav kb goal criterio x rest (relax s x e (gu + w) hv))
              else a_star_for hav kb goal criterio x rest s))"
  by (cases x; cases e)
     (auto simp: Let_def target_def relax_def hres_def heappush_def split: sum.splits option.splits)

lemma a_star_for_rule:
  assumes "a_star_for hav kb goal criterio x es s = Inr s'"
    and "P [] s"
    and keep: "\<And>dn e rest s gu.
          P dn s \<Longrightarrow> es = dn @ e # rest \<Longrightarrow> g_cost s x = Some gu \<Longrightarrow>
          criterio_step kb criterio (snd (snd e)) (is_transfer (snd x) (fst (snd e))) = Inr (step_w kb criterio (snd x) e) \<Longrightarrow>
          \<not> less_inf (gu + step_w kb criterio (snd x) e) (g_cost s (target e)) \<Longrightarrow> P (dn @ [e]) s"
    and upd: "\<And>dn e rest s gu hv.
          P dn s \<Longrightarrow> es = dn @ e # rest \<Longrightarrow> g_cost s x = Some gu \<Longrightarrow>
          criterio_step kb criterio (snd (snd e)) (is_transfer (snd x) (fst (snd e))) = Inr (step_w kb criterio (snd x) e) \<Longrightarrow>
          less_inf (gu + step_w kb criterio (snd x) e) (g_cost s (target e)) \<Longrightarrow>
          hres hav kb goal criterio (fst e) = Inr hv \<Longrightarrow>
          P (dn @ [e]) (relax s x e (gu + step_w kb criterio (snd x) e) hv)"
  shows "P es s'"
proof -
  have "P dn s \<Longrightarrow> es = dn @ rest \<Longrightarrow> a_star_for hav kb goal criterio x rest s = Inr s' \<Longrightarrow> P es s'"
    for dn rest s
  proof (induction rest arbitrary: dn s)
    case Nil
    then show ?case by (cases x) simp
  next
    case (Cons e rest)
    from Cons.prems(3) obtain w where w: "criterio_step kb criterio (snd (snd e)) (is_transfer (snd x) (fst (snd e))) = Inr w"
      by (auto simp: a_star_for_Cons split: sum.splits)
    then have sw: "step_w kb criterio (snd x) e = w" by (simp add: step_w_def)
    from Cons.prems(3) w obtain gu where gu: "g_cost s x = Some gu"
      by (auto simp: a_star_for_Cons split: option.splits)
    have es: "es = (dn @ [e]) @ rest" using Cons.prems(2) by simp
    show ?case
    proof (cases "less_inf (gu + w) (g_cost s (target e))")
      case True
      with Cons.prems(3) w gu obtain hv where hv: "hres hav kb goal criterio (fst e) = Inr hv"
        and run: "a_star_for hav kb goal criterio x rest (relax s x e (gu + w) hv) = Inr s'"
        by (auto simp: a_star_for_Cons split: sum.splits)
      have "P (dn @ [e]) (relax s x e (gu + w) hv)"
        using upd [OF Cons.prems(1) Cons.prems(2) gu] w sw True hv by simp
      from Cons.IH [OF this es run] show ?thesis .
    next
      case False
      with Cons.prems(3) w gu have run: "a_star_for hav kb goal criterio x rest s = Inr s'"
        by (auto simp: a_star_for_Cons)
      have "P (dn @ [e]) s"
        using keep [OF Cons.prems(1) Cons.prems(2) gu] w sw False by simp
      from Cons.IH [OF this es run] show ?thesis .
    qed
  qed
  from this [of "[]" s es] assms(1,2) show ?thesis by simp
qed

subsection \<open>Routes and the chain of parents\<close>

lemma route_ok_snoc: "route_ok kb a (es @ [e]) = (route_ok kb a es \<and> e \<in> set (adj (graph_kb kb) (route_end a es)))"
  by (induction es arbitrary: a) auto

lemma route_end_snoc: "route_end a (es @ [e]) = fst e"
  by (induction es arbitrary: a) auto

lemma route_line_snoc: "route_line l (es @ [e]) = Some (fst (snd e))"
  by (induction es arbitrary: l) auto


lemma route_states_snoc: "route_states x (es @ [e]) = route_states x es @ [target e]"
  by (induction es arbitrary: x) auto

lemma tr_dom: "traced kb c start s x es \<Longrightarrow> \<exists>gx. g_cost s x = Some gx"
  by (induction rule: traced.induct) auto

lemma tr_end: "traced kb c start s x es \<Longrightarrow> x = (route_end start es, route_line None es)"
  by (induction rule: traced.induct) (auto simp: route_end_snoc route_line_snoc target_def)

lemma tr_route_ok: "traced kb c start s x es \<Longrightarrow> route_ok kb start es"
proof (induction rule: traced.induct)
  case tr_start
  show ?case by simp
next
  case (tr_step y es x e gy gx)
  from tr_end [OF tr_step.hyps(1)] tr_step show ?case by (simp add: route_ok_snoc)
qed


lemma tr_reconstruct:
  "traced kb c start s x es \<Longrightarrow>
     reconstruct (parents s) (Some x) acc = Some (Inr (acc @ rev (route_states (start, None) es)))"
proof (induction arbitrary: acc rule: traced.induct)
  case tr_start
  then show ?case by (simp add: reconstruct.simps)
next
  case (tr_step y es x e gy gx)
  have "reconstruct (parents s) (Some x) acc = reconstruct (parents s) (Some y) (acc @ [x])"
    using tr_step.hyps(2) by (subst reconstruct.simps) simp
  also have "\<dots> = Some (Inr ((acc @ [x]) @ rev (route_states (start, None) es)))"
    by (rule tr_step.IH)
  finally show ?case using tr_step.hyps(4) by (simp add: route_states_snoc)
qed

subsection \<open>The chain of parents under a relaxation\<close>

lemma tr_cong:
  assumes "g_cost s' = g_cost s" "parents s' = parents s"
  shows "traced kb c start s x es \<Longrightarrow> traced kb c start s' x es"
proof (induction rule: traced.induct)
  case tr_start
  then show ?case using assms by (auto intro: traced.tr_start)
next
  case (tr_step y es x e gy gx)
  then show ?case using assms by (auto intro: traced.tr_step)
qed

lemma target_not_start [simp]: "target e \<noteq> (start, None)" "(start, None) \<noteq> target e"
  by (simp_all add: target_def)

lemma nonneg_stepsD:
  "nonneg_steps kb c \<Longrightarrow> e \<in> set (adj (graph_kb kb) u) \<Longrightarrow> 0 \<le> step_w kb c l e"
  unfolding nonneg_steps_def by blast

lemma inv_term_queue: "inv_term kb c start s \<Longrightarrow> (p, x) \<in> set (openpq s) \<Longrightarrow> \<exists>gx. g_cost s x = Some gx"
  unfolding inv_term_def by blast

lemma inv_term_tr: "inv_term kb c start s \<Longrightarrow> g_cost s x = Some gx \<Longrightarrow> \<exists>es. traced kb c start s x es"
  unfolding inv_term_def by blast

lemma inv_termI:
  assumes "\<And>p x. (p, x) \<in> set (openpq s) \<Longrightarrow> \<exists>gx. g_cost s x = Some gx"
    and "\<And>x gx. g_cost s x = Some gx \<Longrightarrow> \<exists>es. traced kb c start s x es"
  shows "inv_term kb c start s"
  unfolding inv_term_def using assms by blast

lemma relax_simps [simp]:
  "g_cost (relax s x e tg hv) = (g_cost s)(target e \<mapsto> tg)"
  "parents (relax s x e tg hv) = (parents s)(target e \<mapsto> Some x)"
  "openpq (relax s x e tg hv) = openpq s @ [(of_int tg + hv, target e)]"
  by (simp_all add: relax_def)

lemma tr_relax_low:
  assumes N: "nonneg_steps kb c"
    and imp: "less_inf (gu + w) (g_cost s (target e))" and w: "0 \<le> w"
  shows "traced kb c start s z es \<Longrightarrow> g_cost s z = Some gz \<Longrightarrow> gz \<le> gu
         \<Longrightarrow> traced kb c start (relax s x e (gu + w) hv) z es"
proof (induction arbitrary: gz rule: traced.induct)
  case tr_start
  then show ?case by (auto intro!: traced.tr_start)
next
  case (tr_step y es z e0 gy gz')
  have w0: "0 \<le> step_w kb c (snd y) e0" using N tr_step.hyps(3) by (rule nonneg_stepsD)
  from tr_step have gz: "gz' = gz" and gyz: "gy \<le> gz" using w0 by auto
  have zn: "z \<noteq> target e" using imp tr_step.hyps(6) tr_step.prems w gz
    by (auto simp: less_inf_def)
  have yn: "y \<noteq> target e" using imp tr_step.hyps(5) tr_step.prems w gyz
    by (auto simp: less_inf_def)
  have "traced kb c start (relax s x e (gu + w) hv) y es"
    using tr_step.IH [OF tr_step.hyps(5)] gyz tr_step.prems by simp
  then show ?case
    using tr_step.hyps zn yn by (auto intro!: traced.tr_step)
qed

lemma tr_relax_target:
  assumes N: "nonneg_steps kb c"
    and imp: "less_inf (gu + w) (g_cost s (target e))" and w: "w = step_w kb c (snd x) e"
    and e: "e \<in> set (adj (graph_kb kb) (fst x))"
    and x: "traced kb c start s x es" "g_cost s x = Some gu"
  shows "traced kb c start (relax s x e (gu + w) hv) (target e) (es @ [e])"
proof -
  have w0: "0 \<le> w" unfolding w using N e by (rule nonneg_stepsD)
  have xn: "x \<noteq> target e" using imp x(2) w0 by (auto simp: less_inf_def)
  have "traced kb c start (relax s x e (gu + w) hv) x es"
    using tr_relax_low [OF N imp w0 x(1) x(2)] by simp
  then show ?thesis
    using xn x(2) e w by (auto intro!: traced.tr_step [where gy = gu])
qed

lemma tr_relax_all:
  assumes N: "nonneg_steps kb c"
    and imp: "less_inf (gu + w) (g_cost s (target e))" and w: "w = step_w kb c (snd x) e"
    and e: "e \<in> set (adj (graph_kb kb) (fst x))"
    and x: "traced kb c start s x esx" "g_cost s x = Some gu"
  shows "traced kb c start s z es \<Longrightarrow> \<exists>es'. traced kb c start (relax s x e (gu + w) hv) z es'"
proof (induction rule: traced.induct)
  case tr_start
  then have "traced kb c start (relax s x e (gu + w) hv) (start, None) []"
    by (intro traced.tr_start) simp_all
  then show ?case ..
next
  case (tr_step y es z e0 gy gz)
  then obtain es' where y': "traced kb c start (relax s x e (gu + w) hv) y es'" by auto
  show ?case
  proof (cases "z = target e")
    case True
    with tr_relax_target [OF N imp w e x] show ?thesis by auto
  next
    case False
    have "\<exists>gy'. g_cost (relax s x e (gu + w) hv) y = Some gy' \<and> gy' \<le> gy"
      using imp tr_step.hyps(5) by (auto simp: less_inf_def)
    then obtain gy' where "g_cost (relax s x e (gu + w) hv) y = Some gy'" "gy' \<le> gy" by auto
    with y' tr_step.hyps False have "traced kb c start (relax s x e (gu + w) hv) z (es' @ [e0])"
      by (auto intro!: traced.tr_step [where gy = gy'])
    then show ?thesis by auto
  qed
qed

lemma inv_term_relax:
  assumes N: "nonneg_steps kb c" and I: "inv_term kb c start s"
    and imp: "less_inf (gu + w) (g_cost s (target e))" and w: "w = step_w kb c (snd x) e"
    and e: "e \<in> set (adj (graph_kb kb) (fst x))"
    and x: "g_cost s x = Some gu"
  shows "inv_term kb c start (relax s x e (gu + w) hv)"
proof -
  from inv_term_tr [OF I x] obtain esx where esx: "traced kb c start s x esx" ..
  note tgt = tr_relax_target [OF N imp w e esx x, of hv]
  note all = tr_relax_all [OF N imp w e esx x, of _ _ hv]
  show ?thesis
  proof (rule inv_termI)
    fix p z assume "(p, z) \<in> set (openpq (relax s x e (gu + w) hv))"
    then have "z = target e \<or> (p, z) \<in> set (openpq s)" by auto
    then show "\<exists>gx. g_cost (relax s x e (gu + w) hv) z = Some gx"
      using inv_term_queue [OF I, of p z] by auto
  next
    fix z gz assume z: "g_cost (relax s x e (gu + w) hv) z = Some gz"
    show "\<exists>es. traced kb c start (relax s x e (gu + w) hv) z es"
    proof (cases "z = target e")
      case True
      with tgt show ?thesis by blast
    next
      case False
      with z have "g_cost s z = Some gz" by simp
      from inv_term_tr [OF I this] obtain es where "traced kb c start s z es" ..
      from all [OF this] show ?thesis .
    qed
  qed
qed

lemma inv_term_for:
  assumes N: "nonneg_steps kb c" and I: "inv_term kb c start s"
    and run: "a_star_for hav kb goal c x (adj (graph_kb kb) (fst x)) s = Inr s'"
  shows "inv_term kb c start s'"
proof (rule a_star_for_rule [OF run, where P = "\<lambda>dn s. inv_term kb c start s"])
  show "inv_term kb c start s" by (rule I)
next
  fix dn e rest s gu hv
  assume "inv_term kb c start s" "adj (graph_kb kb) (fst x) = dn @ e # rest" "g_cost s x = Some gu"
    "less_inf (gu + step_w kb c (snd x) e) (g_cost s (target e))"
  then show "inv_term kb c start (relax s x e (gu + step_w kb c (snd x) e) hv)"
    by (intro inv_term_relax [OF N]) auto
qed

lemma inv_term_pop:
  assumes I: "inv_term kb c start s" and sub: "set pq' \<subseteq> set (openpq s)"
  shows "inv_term kb c start (s\<lparr>openpq := pq'\<rparr>)"
proof (rule inv_termI)
  fix p x assume "(p, x) \<in> set (openpq (s\<lparr>openpq := pq'\<rparr>))"
  with sub have "(p, x) \<in> set (openpq s)" by auto
  from inv_term_queue [OF I this] show "\<exists>gx. g_cost (s\<lparr>openpq := pq'\<rparr>) x = Some gx" by simp
next
  fix x gx assume "g_cost (s\<lparr>openpq := pq'\<rparr>) x = Some gx"
  then have "g_cost s x = Some gx" by simp
  from inv_term_tr [OF I this] obtain es where "traced kb c start s x es" ..
  then have "traced kb c start (s\<lparr>openpq := pq'\<rparr>) x es" by (rule tr_cong [rotated -1]) simp_all
  then show "\<exists>es. traced kb c start (s\<lparr>openpq := pq'\<rparr>) x es" ..
qed

subsection \<open>What a push lowers\<close>

lemma finite_space: "finite_net kb \<Longrightarrow> finite (space kb start)"
  by (simp add: finite_net_def space_def)

lemma tr_space: "traced kb c start s x es \<Longrightarrow> x \<in> space kb start"
  by (induction rule: traced.induct) (auto simp: space_def)

lemma tr_nonneg:
  assumes N: "nonneg_steps kb c"
  shows "traced kb c start s x es \<Longrightarrow> g_cost s x = Some gx \<Longrightarrow> 0 \<le> gx"
proof (induction arbitrary: gx rule: traced.induct)
  case tr_start
  then show ?case by simp
next
  case (tr_step y es x e gy gx')
  have "0 \<le> step_w kb c (snd y) e" using N tr_step.hyps(3) by (rule nonneg_stepsD)
  moreover have "0 \<le> gy" using tr_step.IH [OF tr_step.hyps(5)] .
  ultimately show ?case using tr_step.hyps(6,7) tr_step.prems by simp
qed

lemma inv_term_dom: "inv_term kb c start s \<Longrightarrow> dom (g_cost s) \<subseteq> space kb start"
  using inv_term_tr tr_space by (metis domD subsetI)

lemma inv_term_nonneg:
  "nonneg_steps kb c \<Longrightarrow> inv_term kb c start s \<Longrightarrow> g_cost s x = Some gx \<Longrightarrow> 0 \<le> gx"
  using inv_term_tr tr_nonneg by metis

lemma relax_decreases:
  assumes N: "nonneg_steps kb c" and F: "finite_net kb" and I: "inv_term kb c start s"
    and imp: "less_inf (gu + w) (g_cost s (target e))" and w: "w = step_w kb c (snd x) e"
    and e: "e \<in> set (adj (graph_kb kb) (fst x))"
    and x: "g_cost s x = Some gu"
  shows "gm_less kb start (relax s x e (gu + w) hv) s"
proof -
  let ?s' = "relax s x e (gu + w) hv"
  let ?D = "dom (g_cost s)"
  have I': "inv_term kb c start ?s'" by (rule inv_term_relax [OF N I imp w e x])
  have fin: "finite (space kb start)" by (rule finite_space [OF F])
  have finD: "finite ?D" using inv_term_dom [OF I] fin by (rule finite_subset)
  have tin: "target e \<in> space kb start" using e by (auto simp: space_def)
  show ?thesis
  proof (cases "g_cost s (target e)")
    case None
    have "space kb start - dom (g_cost ?s') \<subset> space kb start - ?D"
      using None tin by auto
    then have "m1 kb start ?s' < m1 kb start s"
      unfolding m1_def using fin by (intro psubset_card_mono) auto
    then show ?thesis by (simp add: gm_less_def)
  next
    case (Some old)
    then have lt: "gu + w < old" using imp by (simp add: less_inf_def)
    have tD: "target e \<in> ?D" using Some by auto
    have dom': "dom (g_cost ?s') = ?D" using tD by auto
    have s1: "(\<Sum>z \<in> ?D. the (g_cost s z)) = old + (\<Sum>z \<in> ?D - {target e}. the (g_cost s z))"
      using sum.remove [OF finD tD, of "\<lambda>z. the (g_cost s z)"] Some by simp
    have s2: "(\<Sum>z \<in> ?D. the (g_cost ?s' z)) = (gu + w) + (\<Sum>z \<in> ?D - {target e}. the (g_cost ?s' z))"
      using sum.remove [OF finD tD, of "\<lambda>z. the (g_cost ?s' z)"] by simp
    have s3: "(\<Sum>z \<in> ?D - {target e}. the (g_cost ?s' z)) = (\<Sum>z \<in> ?D - {target e}. the (g_cost s z))"
      by (rule sum.cong) auto
    have nn: "0 \<le> (\<Sum>z \<in> ?D. the (g_cost ?s' z))"
    proof (rule sum_nonneg)
      fix z assume "z \<in> ?D"
      then obtain gz where "g_cost ?s' z = Some gz" using dom' by (metis domD)
      with inv_term_nonneg [OF N I' this] show "0 \<le> the (g_cost ?s' z)" by simp
    qed
    have "m2 ?s' < m2 s" unfolding m2_def dom' using s1 s2 s3 lt nn by simp
    moreover have "m1 kb start ?s' = m1 kb start s" unfolding m1_def dom' ..
    ultimately show ?thesis by (simp add: gm_less_def)
  qed
qed

lemma gm_less_trans: "gm_less kb start s2 s1 \<Longrightarrow> gm_less kb start s1 s \<Longrightarrow> gm_less kb start s2 s"
  by (auto simp: gm_less_def)

lemma for_decreases:
  assumes N: "nonneg_steps kb c" and F: "finite_net kb" and I: "inv_term kb c start s"
    and run: "a_star_for hav kb goal c x (adj (graph_kb kb) (fst x)) s = Inr s'"
  shows "(g_cost s' = g_cost s \<and> openpq s' = openpq s) \<or> gm_less kb start s' s"
proof -
  have "inv_term kb c start s' \<and> ((g_cost s' = g_cost s \<and> openpq s' = openpq s) \<or> gm_less kb start s' s)"
  proof (rule a_star_for_rule [OF run, where P = "\<lambda>dn s1. inv_term kb c start s1 \<and>
           ((g_cost s1 = g_cost s \<and> openpq s1 = openpq s) \<or> gm_less kb start s1 s)"])
    show "inv_term kb c start s \<and> (g_cost s = g_cost s \<and> openpq s = openpq s \<or> gm_less kb start s s)"
      using I by simp
  next
    fix dn e rest s1 gu hv
    assume P: "inv_term kb c start s1 \<and> (g_cost s1 = g_cost s \<and> openpq s1 = openpq s \<or> gm_less kb start s1 s)"
      and es: "adj (graph_kb kb) (fst x) = dn @ e # rest" and gu: "g_cost s1 x = Some gu"
      and imp: "less_inf (gu + step_w kb c (snd x) e) (g_cost s1 (target e))"
    have e: "e \<in> set (adj (graph_kb kb) (fst x))" using es by simp
    from P have I1: "inv_term kb c start s1" ..
    have a: "inv_term kb c start (relax s1 x e (gu + step_w kb c (snd x) e) hv)"
      by (rule inv_term_relax [OF N I1 imp refl e gu])
    have d: "gm_less kb start (relax s1 x e (gu + step_w kb c (snd x) e) hv) s1"
      by (rule relax_decreases [OF N F I1 imp refl e gu])
    from P have "g_cost s1 = g_cost s \<and> openpq s1 = openpq s \<or> gm_less kb start s1 s" ..
    then have "gm_less kb start (relax s1 x e (gu + step_w kb c (snd x) e) hv) s"
    proof
      assume "g_cost s1 = g_cost s \<and> openpq s1 = openpq s"
      with d show ?thesis by (simp add: gm_less_def m1_def m2_def)
    next
      assume "gm_less kb start s1 s"
      with d show ?thesis by (rule gm_less_trans)
    qed
    with a show "inv_term kb c start (relax s1 x e (gu + step_w kb c (snd x) e) hv) \<and>
      (g_cost (relax s1 x e (gu + step_w kb c (snd x) e) hv) = g_cost s \<and>
       openpq (relax s1 x e (gu + step_w kb c (snd x) e) hv) = openpq s \<or>
       gm_less kb start (relax s1 x e (gu + step_w kb c (snd x) e) hv) s)" by simp
  qed
  then show ?thesis ..
qed

subsection \<open>The while loop returns\<close>

lemma same_net_refl: "same_net kb kb"
  by (simp add: same_net_def)

lemma adj_neighbors: "adj (graph_kb (snd (neighbors kb u))) = adj (graph_kb kb)"
  by (auto simp: neighbors_def adj_def fun_eq_iff split: option.splits)

lemma data_neighbors: "data (snd (neighbors kb u)) = data kb"
  by (simp add: neighbors_def split: option.splits)

lemma same_net_neighbors: "same_net kb0 kb \<Longrightarrow> same_net kb0 (snd (neighbors kb u))"
  by (simp add: same_net_def adj_neighbors data_neighbors)

lemma criterio_step_data: "data kb = data kb0 \<Longrightarrow> criterio_step kb = criterio_step kb0"
  by (simp add: criterio_step_def step_cost_def fun_eq_iff)

lemma coords_data: "data kb = data kb0 \<Longrightarrow> coords kb = coords kb0"
  by (simp add: coords_def fun_eq_iff)

lemma hres_data:
  assumes "data kb = data kb0"
  shows "hres hav kb = hres hav kb0"
  unfolding hres_def heuristic_h_def coords_data [OF assms] ..

lemma a_star_for_data:
  assumes "data kb = data kb0"
  shows "a_star_for hav kb goal c x es s = a_star_for hav kb0 goal c x es s"
proof (induction es arbitrary: s)
  case Nil
  show ?case by (cases x) simp
next
  case (Cons e es)
  show ?case
    unfolding a_star_for_Cons criterio_step_data [OF assms] hres_data [OF assms] Cons.IH ..
qed

lemma heappop_in: "pq \<noteq> [] \<Longrightarrow> fst (heappop pq) \<in> set pq"
  by (simp add: heappop_def Let_def)


lemma heappop_set: "set (snd (heappop pq)) \<subseteq> set pq"
  using set_remove1_subset [of "Min (set pq)" pq] by (simp add: heappop_def Let_def)


lemma heappop_length: "pq \<noteq> [] \<Longrightarrow> length (snd (heappop pq)) < length pq"
  by (simp add: heappop_def Let_def length_remove1)

lemma a_star_while_unfold:
  "a_star_while hav goal criterio s kb =
     (if openpq s = [] then Some (Inr (None, None), kb)
      else if fst (snd (fst (heappop (openpq s)))) = goal then
        Option.bind (reconstruct (parents s) (Some (snd (fst (heappop (openpq s))))) [])
          (\<lambda>r. case r of
                  Inl e \<Rightarrow> Some (Inl e, kb)
                | Inr path \<Rightarrow>
                    (case g_cost s (snd (fst (heappop (openpq s)))) of
                       None \<Rightarrow> Some (Inl KeyError, kb)
                     | Some g \<Rightarrow> Some (Inr (Some (rev path), Some g), kb)))
      else
        (case a_star_for hav (snd (neighbors kb (fst (snd (fst (heappop (openpq s))))))) goal criterio
                (snd (fst (heappop (openpq s))))
                (fst (neighbors kb (fst (snd (fst (heappop (openpq s)))))))
                (s\<lparr>openpq := snd (heappop (openpq s))\<rparr>) of
           Inl e \<Rightarrow> Some (Inl e, snd (neighbors kb (fst (snd (fst (heappop (openpq s)))))))
         | Inr s' \<Rightarrow> a_star_while hav goal criterio s' (snd (neighbors kb (fst (snd (fst (heappop (openpq s)))))))))"
proof -
  obtain p u ll pq' where hp: "heappop (openpq s) = ((p, (u, ll)), pq')"
    by (metis prod.exhaust)
  show ?thesis by (subst a_star_while.simps) (simp add: hp case_prod_beta cong: sum.case_cong)
qed

lemma a_star_while_terminates:
  assumes N: "nonneg_steps kb0 c" and F: "finite_net kb0"
  shows "inv_term kb0 c start s \<Longrightarrow> same_net kb0 kb \<Longrightarrow> \<exists>y. a_star_while hav goal c s kb = Some y"
proof (induction s arbitrary: kb
    rule: wf_induct_rule [OF wf_measures [of "[m1 kb0 start, m2, \<lambda>s. length (openpq s)]"]])
  case (1 s)
  note I = "1.prems"(1) and SN = "1.prems"(2)
  show ?case
  proof (cases "openpq s = []")
    case True
    then show ?thesis by (subst a_star_while_unfold) simp
  next
    case ne: False
    define x where "x = snd (fst (heappop (openpq s)))"
    define pq' where "pq' = snd (heappop (openpq s))"
    have "fst (heappop (openpq s)) \<in> set (openpq s)" using ne by (rule heappop_in)
    then have xin: "(fst (fst (heappop (openpq s))), x) \<in> set (openpq s)" by (simp add: x_def)
    from inv_term_queue [OF I xin] obtain gx where gx: "g_cost s x = Some gx" ..
    show ?thesis
    proof (cases "fst x = goal")
      case True
      from inv_term_tr [OF I gx] obtain es where "traced kb0 c start s x es" ..
      from tr_reconstruct [OF this, of "[]"] gx True ne show ?thesis
        by (subst a_star_while_unfold) (simp add: x_def)
    next
      case ng: False
      define kb' where "kb' = snd (neighbors kb (fst x))"
      have SN': "same_net kb0 kb'" unfolding kb'_def using SN by (rule same_net_neighbors)
      have ns: "fst (neighbors kb (fst x)) = adj (graph_kb kb0) (fst x)"
        using SN by (simp add: fst_neighbors same_net_def)
      have d: "data kb' = data kb0" using SN' by (simp add: same_net_def)
      let ?s0 = "s\<lparr>openpq := pq'\<rparr>"
      have I0: "inv_term kb0 c start ?s0"
        using I unfolding pq'_def by (rule inv_term_pop) (rule heappop_set)
      show ?thesis
      proof (cases "a_star_for hav kb0 goal c x (adj (graph_kb kb0) (fst x)) ?s0")
        case (Inl e)
        then show ?thesis using ne ng
          by (subst a_star_while_unfold)
             (simp add: x_def [symmetric] pq'_def [symmetric] kb'_def [symmetric] ns a_star_for_data [OF d])
      next
        case (Inr s')
        have I': "inv_term kb0 c start s'" by (rule inv_term_for [OF N I0 Inr])
        have len: "length pq' < length (openpq s)" unfolding pq'_def using ne by (rule heappop_length)
        from for_decreases [OF N F I0 Inr]
        have "(s', s) \<in> measures [m1 kb0 start, m2, \<lambda>s. length (openpq s)]"
        proof
          assume "g_cost s' = g_cost ?s0 \<and> openpq s' = openpq ?s0"
          then show ?thesis using len by (simp add: m1_def m2_def)
        next
          assume "gm_less kb0 start s' ?s0"
          then show ?thesis by (auto simp: gm_less_def m1_def m2_def)
        qed
        from "1.IH" [OF this I' SN'] obtain y where "a_star_while hav goal c s' kb' = Some y" ..
        then show ?thesis using ne ng Inr
          by (subst a_star_while_unfold)
             (simp add: x_def [symmetric] pq'_def [symmetric] kb'_def [symmetric] ns a_star_for_data [OF d])
      qed
    qed
  qed
qed

subsection \<open>A rule for what the while loop returns\<close>

lemma a_star_while_rule:
  assumes run: "a_star_while hav goal criterio s kb = Some y"
    and I: "I s kb"
    and empty: "\<And>s kb. I s kb \<Longrightarrow> openpq s = [] \<Longrightarrow> Q (Inr (None, None), kb)"
    and found: "\<And>s kb x r. I s kb \<Longrightarrow> openpq s \<noteq> [] \<Longrightarrow> x = snd (fst (heappop (openpq s)))
          \<Longrightarrow> fst x = goal \<Longrightarrow> reconstruct (parents s) (Some x) [] = Some r
          \<Longrightarrow> Q (case r of
                   Inl e \<Rightarrow> (Inl e, kb)
                 | Inr path \<Rightarrow>
                     (case g_cost s x of
                        None \<Rightarrow> (Inl KeyError, kb)
                      | Some g \<Rightarrow> (Inr (Some (rev path), Some g), kb)))"
    and failed: "\<And>s kb x e. I s kb \<Longrightarrow> openpq s \<noteq> [] \<Longrightarrow> x = snd (fst (heappop (openpq s)))
          \<Longrightarrow> fst x \<noteq> goal
          \<Longrightarrow> a_star_for hav (snd (neighbors kb (fst x))) goal criterio x (fst (neighbors kb (fst x)))
                (s\<lparr>openpq := snd (heappop (openpq s))\<rparr>) = Inl e
          \<Longrightarrow> Q (Inl e, snd (neighbors kb (fst x)))"
    and step: "\<And>s kb x s'. I s kb \<Longrightarrow> openpq s \<noteq> [] \<Longrightarrow> x = snd (fst (heappop (openpq s)))
          \<Longrightarrow> fst x \<noteq> goal
          \<Longrightarrow> a_star_for hav (snd (neighbors kb (fst x))) goal criterio x (fst (neighbors kb (fst x)))
                (s\<lparr>openpq := snd (heappop (openpq s))\<rparr>) = Inr s'
          \<Longrightarrow> I s' (snd (neighbors kb (fst x)))"
  shows "Q y"
proof -
  have "hav' = hav \<longrightarrow> goal' = goal \<longrightarrow> criterio' = criterio \<longrightarrow> I s kb \<longrightarrow> Q y"
    if "a_star_while hav' goal' criterio' s kb = Some y" for hav' goal' criterio'
    using that
  proof (rule a_star_while.raw_induct
      [where P = "\<lambda>hav' goal' criterio' s kb y.
                    hav' = hav \<longrightarrow> goal' = goal \<longrightarrow> criterio' = criterio \<longrightarrow> I s kb \<longrightarrow> Q y", rotated])
    fix loop :: "(coord \<Rightarrow> coord \<Rightarrow> real) \<Rightarrow> station \<Rightarrow> string \<Rightarrow> search \<Rightarrow> KnowledgeBase
        \<Rightarrow> ((error + route) \<times> KnowledgeBase) option"
    fix hav' goal' criterio' s kb y
    assume IH: "\<And>hav' goal' criterio' s kb y. loop hav' goal' criterio' s kb = Some y \<Longrightarrow>
        hav' = hav \<longrightarrow> goal' = goal \<longrightarrow> criterio' = criterio \<longrightarrow> I s kb \<longrightarrow> Q y"
    assume eq: "(if openpq s = [] then Some (Inr (None, None), kb)
      else case heappop (openpq s) of
           (popped, pq') \<Rightarrow>
             case snd popped of
             (u, last_line) \<Rightarrow>
               if u = goal'
               then Option.bind (reconstruct (parents s) (Some (u, last_line)) [])
                     (\<lambda>r. case r of Inl e \<Rightarrow> Some (Inl e, kb)
                          | Inr path \<Rightarrow>
                              case g_cost s (u, last_line) of
                                None \<Rightarrow> Some (Inl KeyError, kb)
                              | Some g \<Rightarrow> Some (Inr (Some (rev path), Some g), kb))
               else case neighbors kb u of
                    (ns, kb') \<Rightarrow>
                      case a_star_for hav' kb' goal' criterio' (u, last_line) ns (s\<lparr>openpq := pq'\<rparr>) of
                        Inl e \<Rightarrow> Some (Inl e, kb')
                      | Inr s' \<Rightarrow> loop hav' goal' criterio' s' kb') = Some y"
    show "hav' = hav \<longrightarrow> goal' = goal \<longrightarrow> criterio' = criterio \<longrightarrow> I s kb \<longrightarrow> Q y"
    proof (intro impI)
      assume h: "hav' = hav" and g: "goal' = goal" and c: "criterio' = criterio" and Is: "I s kb"
      show "Q y"
      proof (cases "openpq s = []")
        case True
        with eq have "y = (Inr (None, None), kb)" by simp
        with empty [OF Is True] show ?thesis by simp
      next
        case ne: False
        obtain p u ll pq' where hp: "heappop (openpq s) = ((p, (u, ll)), pq')"
          by (metis prod.exhaust)
        have x: "(u, ll) = snd (fst (heappop (openpq s)))" by (simp add: hp)
        show ?thesis
        proof (cases "u = goal")
          case True
          with eq ne hp g obtain r where r: "reconstruct (parents s) (Some (u, ll)) [] = Some r"
            and y: "y = (case r of
                   Inl e \<Rightarrow> (Inl e, kb)
                 | Inr path \<Rightarrow>
                     (case g_cost s (u, ll) of
                        None \<Rightarrow> (Inl KeyError, kb)
                      | Some g \<Rightarrow> (Inr (Some (rev path), Some g), kb)))"
            by (auto split: Option.bind_splits sum.splits option.splits)
          from found [OF Is ne x _ r] True y show ?thesis by simp
        next
          case ng: False
          obtain ns kb' where nb: "neighbors kb u = (ns, kb')" by (cases "neighbors kb u")
          show ?thesis
          proof (cases "a_star_for hav kb' goal criterio (u, ll) ns (s\<lparr>openpq := pq'\<rparr>)")
            case (Inl e)
            with eq ne hp ng nb h g c have "y = (Inl e, kb')" by simp
            moreover have "Q (Inl e, snd (neighbors kb (fst (u, ll))))"
              by (rule failed [OF Is ne x]) (use ng Inl nb hp in simp_all)
            ultimately show ?thesis using nb by simp
          next
            case (Inr s')
            with eq ne hp ng nb h g c have "loop hav goal criterio s' kb' = Some y" by simp
            moreover have "I s' (snd (neighbors kb (fst (u, ll))))"
              by (rule step [OF Is ne x]) (use ng Inr nb hp in simp_all)
            ultimately show ?thesis using IH nb by auto
          qed
        qed
      qed
    qed
  qed
  from this [OF run] I show ?thesis by simp
qed

subsection \<open>Constructed networks\<close>

lemma init_adj:
  assumes "KnowledgeBase_init d = Inr kb"
  shows "set (adj (graph_kb kb) u) =
           {(b, l, t) | b l t. (u, b, l, t) \<in> set (links d)} \<union> {(a, l, t) | a l t. (a, u, l, t) \<in> set (links d)}"
proof -
  have "graph_kb kb = foldl add_link Map.empty (links d)"
    using assms by (auto simp: KnowledgeBase_init_def)
  moreover have "adj Map.empty u = []" by (simp add: adj_def)
  ultimately show ?thesis using adj_foldl_add_link [of Map.empty "links d" u] by simp
qed

lemma init_data: "KnowledgeBase_init d = Inr kb \<Longrightarrow> data kb = d"
  by (auto simp: KnowledgeBase_init_def)

lemma init_finite_net:
  assumes "KnowledgeBase_init d = Inr kb"
  shows "finite_net kb"
proof -
  have "(\<Union>u. set (adj (graph_kb kb) u))
          \<subseteq> (\<lambda>(a, b, l, t). (b, l, t)) ` set (links d) \<union> (\<lambda>(a, b, l, t). (a, l, t)) ` set (links d)"
    unfolding init_adj [OF assms] by force
  then show ?thesis unfolding finite_net_def by (rule finite_subset) simp
qed

lemma step_w_free: "c \<noteq> ''tiempo'' \<Longrightarrow> 0 \<le> step_w kb c l e"
  by (simp add: step_w_def criterio_step_def)

lemma step_w_tiempo:
  "0 \<le> snd (snd e) \<Longrightarrow> 0 \<le> transfer_penalty (data kb) \<Longrightarrow> 0 \<le> step_w kb c l e"
  by (simp add: step_w_def criterio_step_def step_cost_def)

lemma free_nonneg_steps: "c \<noteq> ''tiempo'' \<Longrightarrow> nonneg_steps kb c"
  by (simp add: nonneg_steps_def step_w_free)

lemma init_nonneg_steps:
  assumes kb: "KnowledgeBase_init d = Inr kb" and nn: "nonneg_data d"
  shows "nonneg_steps kb c"
  unfolding nonneg_steps_def
proof (intro allI impI)
  fix u l e assume "e \<in> set (adj (graph_kb kb) u)"
  then have "0 \<le> snd (snd e)" using nn unfolding init_adj [OF kb] nonneg_data_def by auto
  moreover have "0 \<le> transfer_penalty (data kb)" using nn init_data [OF kb] by (simp add: nonneg_data_def)
  ultimately show "0 \<le> step_w kb c l e" by (rule step_w_tiempo)
qed

lemma a_star_start: "a_star hav kb start goal c = a_star_while hav goal c (start_search start) kb"
  by (simp add: a_star_def start_search_def Let_def)

lemma inv_term_start: "inv_term kb c start (start_search start)"
proof (rule inv_termI)
  fix p x assume "(p, x) \<in> set (openpq (start_search start))"
  then show "\<exists>gx. g_cost (start_search start) x = Some gx"
    by (simp add: start_search_def heappush_def)
next
  fix x gx assume "g_cost (start_search start) x = Some gx"
  then have x: "x = (start, None)" by (simp add: start_search_def split: if_splits)
  have "traced kb c start (start_search start) (start, None) []"
    by (rule traced.tr_start) (simp_all add: start_search_def)
  with x show "\<exists>es. traced kb c start (start_search start) x es" by blast
qed

lemma a_star_terminates_net:
  assumes "nonneg_steps kb c" "finite_net kb"
  shows "\<exists>r. a_star hav kb start goal c = Some r"
  unfolding a_star_start
  by (rule a_star_while_terminates [OF assms inv_term_start same_net_refl])

subsection \<open>Unreachable goals\<close>

lemma inv_popped:
  assumes I: "inv_term kb c start s" and ne: "openpq s \<noteq> []"
    and x: "x = snd (fst (heappop (openpq s)))"
  shows "\<exists>gx es. g_cost s x = Some gx \<and> traced kb c start s x es"
proof -
  have "fst (heappop (openpq s)) \<in> set (openpq s)" using ne by (rule heappop_in)
  then have "(fst (fst (heappop (openpq s))), x) \<in> set (openpq s)" by (simp add: x)
  from inv_term_queue [OF I this] obtain gx where gx: "g_cost s x = Some gx" ..
  from inv_term_tr [OF I gx] gx show ?thesis by blast
qed

lemma inv_step:
  assumes N: "nonneg_steps kb c" and I: "inv_term kb c start s" and SN: "same_net kb kb'"
    and run: "a_star_for hav (snd (neighbors kb' (fst x))) goal c x (fst (neighbors kb' (fst x)))
                (s\<lparr>openpq := snd (heappop (openpq s))\<rparr>) = Inr s'"
  shows "inv_term kb c start s'" and "same_net kb (snd (neighbors kb' (fst x)))"
proof -
  show SN': "same_net kb (snd (neighbors kb' (fst x)))" using SN by (rule same_net_neighbors)
  have d: "data (snd (neighbors kb' (fst x))) = data kb" using SN' by (simp add: same_net_def)
  have ns: "fst (neighbors kb' (fst x)) = adj (graph_kb kb) (fst x)"
    using SN by (simp add: fst_neighbors same_net_def)
  have I0: "inv_term kb c start (s\<lparr>openpq := snd (heappop (openpq s))\<rparr>)"
    using I by (rule inv_term_pop) (rule heappop_set)
  from run have "a_star_for hav kb goal c x (adj (graph_kb kb) (fst x))
      (s\<lparr>openpq := snd (heappop (openpq s))\<rparr>) = Inr s'"
    by (simp add: a_star_for_data [OF d] ns)
  with N I0 show "inv_term kb c start s'" by (rule inv_term_for)
qed

lemma criterio_step_supported:
  "supported c \<Longrightarrow> \<exists>w. criterio_step kb c t b = Inr w"
  by (auto simp: supported_def criterio_step_def)

lemma a_star_for_no_error:
  assumes sup: "supported c"
    and h: "\<And>e. e \<in> set es \<Longrightarrow> \<exists>hv. hres hav kb goal c (fst e) = Inr hv"
  shows "g_cost s x \<noteq> None \<Longrightarrow> \<exists>s'. a_star_for hav kb goal c x es s = Inr s'"
  using h
proof (induction es arbitrary: s)
  case Nil
  show ?case by (cases x) simp
next
  case (Cons e es)
  from criterio_step_supported [OF sup] obtain w where
    w: "criterio_step kb c (snd (snd e)) (is_transfer (snd x) (fst (snd e))) = Inr w" by blast
  from Cons.prems(1) obtain gu where gu: "g_cost s x = Some gu" by auto
  from Cons.prems(2) [of e] obtain hv where hv: "hres hav kb goal c (fst e) = Inr hv" by auto
  have rest: "\<And>e'. e' \<in> set es \<Longrightarrow> \<exists>hv. hres hav kb goal c (fst e') = Inr hv"
    using Cons.prems(2) by simp
  have "g_cost (relax s x e (gu + w) hv) x \<noteq> None" using gu by simp
  from Cons.IH [OF this rest] Cons.IH [OF Cons.prems(1) rest] w gu hv
  show ?case by (simp add: a_star_for_Cons)
qed

lemma unreachable_result:
  assumes N: "nonneg_steps kb c" and sup: "supported c" and H: "hres_ok hav kb goal c"
    and U: "unreachable kb start goal"
    and run: "a_star hav kb start goal c = Some y"
  shows "fst y = Inr (None, None)"
proof (rule a_star_while_rule [OF run [unfolded a_star_start],
      where I = "\<lambda>s kb'. inv_term kb c start s \<and> same_net kb kb'"
        and Q = "\<lambda>y. fst y = Inr (None, None)"])
  show "inv_term kb c start (start_search start) \<and> same_net kb kb"
    by (simp add: inv_term_start same_net_refl)
next
  fix s kb' assume "openpq s = []"
  show "fst (Inr (None, None), kb') = Inr (None, None)" by simp
next
  fix s kb' x r
  assume I: "inv_term kb c start s \<and> same_net kb kb'" and ne: "openpq s \<noteq> []"
    and x: "x = snd (fst (heappop (openpq s)))" and g: "fst x = goal"
  from inv_popped [OF _ ne x] I obtain es where "traced kb c start s x es" by blast
  from tr_route_ok [OF this] tr_end [OF this] g U have False by (auto simp: unreachable_def)
  then show "fst (case r of Inl e \<Rightarrow> (Inl e, kb')
       | Inr path \<Rightarrow> (case g_cost s x of None \<Rightarrow> (Inl KeyError, kb')
                     | Some g \<Rightarrow> (Inr (Some (rev path), Some g), kb'))) = Inr (None, None)" ..
next
  fix s kb' x e
  assume I: "inv_term kb c start s \<and> same_net kb kb'" and ne: "openpq s \<noteq> []"
    and x: "x = snd (fst (heappop (openpq s)))"
    and run: "a_star_for hav (snd (neighbors kb' (fst x))) goal c x (fst (neighbors kb' (fst x)))
                (s\<lparr>openpq := snd (heappop (openpq s))\<rparr>) = Inl e"
  from I have SN: "same_net kb kb'" ..
  have SN': "same_net kb (snd (neighbors kb' (fst x)))" using SN by (rule same_net_neighbors)
  have d: "data (snd (neighbors kb' (fst x))) = data kb" using SN' by (simp add: same_net_def)
  have ns: "fst (neighbors kb' (fst x)) = adj (graph_kb kb) (fst x)"
    using SN by (simp add: fst_neighbors same_net_def)
  from inv_popped [OF _ ne x] I obtain gx where "g_cost s x = Some gx" by blast
  then have "g_cost (s\<lparr>openpq := snd (heappop (openpq s))\<rparr>) x \<noteq> None" by simp
  from a_star_for_no_error [OF sup _ this, of "adj (graph_kb kb) (fst x)" hav kb goal] H
  obtain s' where "a_star_for hav kb goal c x (adj (graph_kb kb) (fst x))
      (s\<lparr>openpq := snd (heappop (openpq s))\<rparr>) = Inr s'"
    unfolding hres_ok_def by blast
  with run have False by (simp add: a_star_for_data [OF d] ns)
  then show "fst (Inl e, snd (neighbors kb' (fst x))) = Inr (None, None)" ..
next
  fix s kb' x s'
  assume I: "inv_term kb c start s \<and> same_net kb kb'"
    and run: "a_star_for hav (snd (neighbors kb' (fst x))) goal c x (fst (neighbors kb' (fst x)))
                (s\<lparr>openpq := snd (heappop (openpq s))\<rparr>) = Inr s'"
  from I inv_step [OF N _ _ run]
  show "inv_term kb c start s' \<and> same_net kb (snd (neighbors kb' (fst x)))" by blast
qed




lemma init_hres_ok:
  assumes kb: "KnowledgeBase_init d = Inr kb" and ok: "c = ''tiempo'' \<longrightarrow> coords_ok d goal"
  shows "hres_ok hav kb goal c"
  unfolding hres_ok_def
proof (intro allI impI)
  fix u e assume e: "e \<in> set (adj (graph_kb kb) u)"
  show "\<exists>hv. hres hav kb goal c (fst e) = Inr hv"
  proof (cases "c = ''tiempo''")
    case False
    then show ?thesis by (simp add: hres_def)
  next
    case True
    with ok have c: "coords_ok d goal" by simp
    from e have "stations d (fst e) \<noteq> None"
      using c unfolding init_adj [OF kb] coords_ok_def by auto
    moreover have "stations d goal \<noteq> None" using c by (simp add: coords_ok_def)
    ultimately show ?thesis
      using True init_data [OF kb] by (auto simp: hres_def heuristic_h_def coords_def)
  qed
qed

lemma init_nonneg_steps':
  assumes kb: "KnowledgeBase_init d = Inr kb" and nn: "c = ''tiempo'' \<longrightarrow> nonneg_data d"
  shows "nonneg_steps kb c"
  using init_nonneg_steps [OF kb] free_nonneg_steps nn by blast

text \<open>
  C10: on a network built by the constructor, \<^verbatim>\<open>a_star\<close> returns, with a result or an
  exception, for every start, goal and criterion and every value of the heuristic. Under
  \<^verbatim>\<open>tiempo\<close> this needs link times and a penalty that are not negative; under the other
  criteria no step is negative, though steps and cycles of cost 0 exist.
\<close>

theorem a_star_always_returns:
  assumes "KnowledgeBase_init d = Inr kb" and "criterio = ''tiempo'' \<longrightarrow> nonneg_data d"
  shows "\<exists>r. a_star hav kb start goal criterio = Some r"
  by (rule a_star_terminates_net [OF init_nonneg_steps' [OF assms] init_finite_net [OF assms(1)]])

theorem a_star_always_returns_witness:
  "KnowledgeBase_init (abc_data abc_coords ''1'') = Inr (abc_kb abc_coords ''1'')
   \<and> (\<exists>r. a_star haversine (abc_kb abc_coords ''1'') ''A'' ''C'' ''transbordos'' = Some r)
   \<and> nonneg_data (abc_data abc_coords ''1'')
   \<and> (\<exists>r. a_star haversine (abc_kb abc_coords ''1'') ''A'' ''C'' ''tiempo'' = Some r)"
proof -
  have n: "nonneg_data (abc_data abc_coords ''1'')" by (simp add: nonneg_data_def abc_data_def)
  show ?thesis
    using a_star_always_returns [OF abc_init, of "''transbordos''" abc_coords "''1''" haversine "''A''" "''C''"]
      a_star_always_returns [OF abc_init, of "''tiempo''" abc_coords "''1''" haversine "''A''" "''C''"]
      n abc_init by simp
qed



subsection \<open>What the queries change\<close>

lemma same_but_defaults_refl: "same_but_defaults kb kb"
  by (simp add: same_but_defaults_def)

lemma same_but_defaults_trans:
  "same_but_defaults kb kb1 \<Longrightarrow> same_but_defaults kb1 kb2 \<Longrightarrow> same_but_defaults kb kb2"
  unfolding same_but_defaults_def by (metis option.distinct(1))

lemma snd_neighbors:
  "snd (neighbors kb s) =
     (if s \<in> dom (graph_kb kb) then kb else kb\<lparr>graph_kb := (graph_kb kb)(s \<mapsto> [])\<rparr>)"
  by (auto simp: neighbors_def split: option.splits)

lemma snd_is_interchange:
  "snd (is_interchange kb s) =
     (if s \<in> dom (lines_by_station kb) then kb
      else kb\<lparr>lines_by_station := (lines_by_station kb)(s \<mapsto> {})\<rparr>)"
  by (auto simp: is_interchange_def split: option.splits)

lemma neighbors_frame: "same_but_defaults kb (snd (neighbors kb s))"
  by (auto simp: snd_neighbors same_but_defaults_def)

lemma a_star_frame:
  assumes run: "a_star hav kb start goal c = Some y"
  shows "same_but_defaults kb (snd y)"
proof (rule a_star_while_rule [OF run [unfolded a_star_start],
      where I = "\<lambda>s kb'. same_but_defaults kb kb'" and Q = "\<lambda>y. same_but_defaults kb (snd y)"])
  show "same_but_defaults kb kb" by (rule same_but_defaults_refl)
next
  fix s kb' assume "same_but_defaults kb kb'"
  then show "same_but_defaults kb (snd (Inr (None, None), kb'))" by simp
next
  fix s kb' x r assume "same_but_defaults kb kb'"
  then show "same_but_defaults kb (snd (case r of Inl e \<Rightarrow> (Inl e, kb')
       | Inr path \<Rightarrow> (case g_cost s x of None \<Rightarrow> (Inl KeyError, kb')
                     | Some g \<Rightarrow> (Inr (Some (rev path), Some g), kb'))))"
    by (simp split: sum.splits option.splits)
next
  fix s kb' x e assume "same_but_defaults kb kb'"
  then show "same_but_defaults kb (snd (Inl e, snd (neighbors kb' (fst x))))"
    using neighbors_frame [of kb' "fst x"] by (auto intro: same_but_defaults_trans)
next
  fix s kb' x s' assume "same_but_defaults kb kb'"
  then show "same_but_defaults kb (snd (neighbors kb' (fst x)))"
    using neighbors_frame [of kb' "fst x"] by (auto intro: same_but_defaults_trans)
qed

text \<open>
  C8, as the code has it: \<^verbatim>\<open>neighbors\<close> and \<^verbatim>\<open>is_interchange\<close> leave the knowledge
  base unchanged for a stop that has an entry in the mapping they read, and store the empty
  default under a stop that has none; an \<^verbatim>\<open>a_star\<close> invocation that returns changes at
  most the adjacency mapping, by empty lists under stops that had no entry. (\<^const>\<open>coords\<close>
  reads a plain dictionary and returns no knowledge base.)
\<close>

theorem queries_frame:
  "snd (neighbors kb s) =
     (if s \<in> dom (graph_kb kb) then kb else kb\<lparr>graph_kb := (graph_kb kb)(s \<mapsto> [])\<rparr>)
   \<and> snd (is_interchange kb s) =
     (if s \<in> dom (lines_by_station kb) then kb
      else kb\<lparr>lines_by_station := (lines_by_station kb)(s \<mapsto> {})\<rparr>)
   \<and> (\<forall>r kb'. a_star hav kb start goal criterio = Some (r, kb') \<longrightarrow> same_but_defaults kb kb')"
  using snd_neighbors snd_is_interchange a_star_frame by fastforce

theorem queries_frame_witness:
  "snd (neighbors (abc_kb abc_coords ''2'') ''A'') = abc_kb abc_coords ''2''
   \<and> snd (is_interchange (abc_kb abc_coords ''2'') ''B'') = abc_kb abc_coords ''2''
   \<and> a_star haversine (abc_kb abc_coords ''2'') ''A'' ''C'' ''tiempo'' =
        Some (Inr (Some [(''A'', None), (''B'', Some ''1''), (''C'', Some ''2'')], Some 12),
              abc_kb abc_coords ''2'')
   \<and> same_but_defaults (abc_kb abc_coords ''2'') (abc_kb abc_coords ''2'')"
  using queries_frame [of "abc_kb abc_coords ''2''" "''A''" haversine "''A''" "''C''" "''tiempo''"]
    queries_frame [of "abc_kb abc_coords ''2''" "''B''" haversine "''A''" "''C''" "''tiempo''"]
    abc_search_tiempo [of abc_coords "(0, 0)" "(0, 1)" "(0, 2)" haversine]
  by (simp add: abc_coords_def abc_kb_def)

text \<open>C8 as stated fails at a stop \<open>Z\<close> that the network does not have: each of
  \<^verbatim>\<open>neighbors\<close>, \<^verbatim>\<open>is_interchange\<close> and a search from \<open>Z\<close> adds the key \<open>Z\<close>.\<close>

theorem queries_insert_defaults:
  "graph_kb (abc_kb abc_coords ''2'') ''Z'' = None
   \<and> graph_kb (snd (neighbors (abc_kb abc_coords ''2'') ''Z'')) ''Z'' = Some []
   \<and> lines_by_station (abc_kb abc_coords ''2'') ''Z'' = None
   \<and> lines_by_station (snd (is_interchange (abc_kb abc_coords ''2'') ''Z'')) ''Z'' = Some {}
   \<and> a_star haversine (abc_kb abc_coords ''2'') ''Z'' ''A'' ''saltos'' =
        Some (Inr (None, None),
              (abc_kb abc_coords ''2'')\<lparr>graph_kb := (graph_kb (abc_kb abc_coords ''2''))(''Z'' \<mapsto> [])\<rparr>)"
  by (simp add: a_star_def a_star_while.simps search_defs is_interchange_def abc_kb_def)

subsection \<open>Stops that the network does not have\<close>

lemma start_without_links:
  assumes "adj (graph_kb kb) start = []" "start \<noteq> goal"
  shows "a_star hav kb start goal criterio = Some (Inr (None, None), snd (neighbors kb start))"
proof -
  have "fst (neighbors kb start) = []" using assms(1) by (simp add: fst_neighbors)
  then obtain kb' where n: "neighbors kb start = ([], kb')" by (cases "neighbors kb start") auto
  show ?thesis
    using assms(2) n
    by (simp add: a_star_def a_star_while.simps heappush_def heappop_def Let_def)
qed

lemma goal_not_linked_unreachable:
  assumes kb: "KnowledgeBase_init d = Inr kb"
    and g: "\<forall>(a, b, l, t) \<in> set (links d). a \<noteq> goal \<and> b \<noteq> goal" and ne: "start \<noteq> goal"
  shows "unreachable kb start goal"
  unfolding unreachable_def
proof (intro allI impI)
  fix es assume ok: "route_ok kb start es"
  show "route_end start es \<noteq> goal"
  proof (cases es rule: rev_cases)
    case Nil
    with ne show ?thesis by simp
  next
    case (snoc es' e)
    with ok have "e \<in> set (adj (graph_kb kb) (route_end start es'))" by (simp add: route_ok_snoc)
    then have "fst e \<noteq> goal" using g unfolding init_adj [OF kb] by auto
    with snoc show ?thesis by (simp add: route_end_snoc)
  qed
qed

lemma goal_without_coords:
  assumes ne: "start \<noteq> goal" and e: "adj (graph_kb kb) start \<noteq> []"
    and g: "stations (data kb) goal = None"
  shows "a_star hav kb start goal ''tiempo'' = Some (Inl KeyError, snd (neighbors kb start))"
proof -
  obtain e rest where es: "adj (graph_kb kb) start = e # rest" using e by (cases "adj (graph_kb kb) start") auto
  then have "fst (neighbors kb start) = e # rest" by (simp add: fst_neighbors)
  then obtain kb' where n: "neighbors kb start = (e # rest, kb')" by (cases "neighbors kb start") auto
  have d: "data kb' = data kb" using data_neighbors [of kb start] n by simp
  have h: "hres hav kb' goal ''tiempo'' (fst e) = Inl KeyError"
    using g d by (simp add: hres_def heuristic_h_def coords_def split: option.splits)
  show ?thesis
    using ne n h
    by (simp add: a_star_def a_star_while.simps heappush_def heappop_def Let_def
        a_star_for_Cons criterio_step_def less_inf_def)
qed

text \<open>
  C6, as the code has it: \<^verbatim>\<open>a_star\<close> checks neither stop. A start without links that
  differs from the goal gives the no-path result under every criterion; a goal that no link
  mentions gives the no-path result under \<^verbatim>\<open>saltos\<close> and \<^verbatim>\<open>transbordos\<close>; under
  \<^verbatim>\<open>tiempo\<close> a goal without coordinates gives a \<^verbatim>\<open>KeyError\<close> as soon as the start
  has a link.
\<close>

theorem unknown_stop_outcomes:
  "(adj (graph_kb kb) start = [] \<and> start \<noteq> goal \<longrightarrow>
      a_star hav kb start goal criterio = Some (Inr (None, None), snd (neighbors kb start)))
   \<and> (KnowledgeBase_init d = Inr kb \<and> (\<forall>(a, b, l, t) \<in> set (links d). a \<noteq> goal \<and> b \<noteq> goal)
        \<and> start \<noteq> goal \<and> (criterio = ''saltos'' \<or> criterio = ''transbordos'') \<longrightarrow>
      (\<exists>kb'. a_star hav kb start goal criterio = Some (Inr (None, None), kb')))
   \<and> (start \<noteq> goal \<and> adj (graph_kb kb) start \<noteq> [] \<and> stations (data kb) goal = None \<longrightarrow>
      a_star hav kb start goal ''tiempo'' = Some (Inl KeyError, snd (neighbors kb start)))"
proof (intro conjI impI)
  assume "adj (graph_kb kb) start = [] \<and> start \<noteq> goal"
  then show "a_star hav kb start goal criterio = Some (Inr (None, None), snd (neighbors kb start))"
    using start_without_links by blast
next
  assume a: "KnowledgeBase_init d = Inr kb \<and> (\<forall>(a, b, l, t) \<in> set (links d). a \<noteq> goal \<and> b \<noteq> goal)
        \<and> start \<noteq> goal \<and> (criterio = ''saltos'' \<or> criterio = ''transbordos'')"
  then have kb: "KnowledgeBase_init d = Inr kb" and U: "unreachable kb start goal"
    using goal_not_linked_unreachable by blast+
  have N: "nonneg_steps kb criterio" using a by (intro free_nonneg_steps) auto
  have S: "supported criterio" using a by (auto simp: supported_def)
  have H: "hres_ok hav kb goal criterio" using a by (intro init_hres_ok [OF kb]) auto
  from a_star_terminates_net [OF N init_finite_net [OF kb]]
  obtain y where y: "a_star hav kb start goal criterio = Some y" ..
  from unreachable_result [OF N S H U y] have "y = (Inr (None, None), snd y)"
    by (cases y) simp
  with y show "\<exists>kb'. a_star hav kb start goal criterio = Some (Inr (None, None), kb')" by metis
next
  assume "start \<noteq> goal \<and> adj (graph_kb kb) start \<noteq> [] \<and> stations (data kb) goal = None"
  then show "a_star hav kb start goal ''tiempo'' = Some (Inl KeyError, snd (neighbors kb start))"
    using goal_without_coords by blast
qed

theorem unknown_stop_outcomes_witness:
  "a_star haversine (abc_kb abc_coords ''2'') ''Z'' ''A'' ''tiempo'' =
      Some (Inr (None, None), snd (neighbors (abc_kb abc_coords ''2'') ''Z''))
   \<and> (\<exists>kb'. a_star haversine (abc_kb abc_coords ''2'') ''A'' ''Z'' ''saltos'' = Some (Inr (None, None), kb'))
   \<and> a_star haversine (abc_kb abc_coords ''2'') ''A'' ''Z'' ''tiempo'' =
      Some (Inl KeyError, snd (neighbors (abc_kb abc_coords ''2'') ''A''))"
  using unknown_stop_outcomes [of "abc_kb abc_coords ''2''" "''Z''" "''A''" haversine "''tiempo''"
      "abc_data abc_coords ''2''"]
    unknown_stop_outcomes [of "abc_kb abc_coords ''2''" "''A''" "''Z''" haversine "''saltos''"
      "abc_data abc_coords ''2''"]
    abc_init [of abc_coords "''2''"]
  by (simp add: abc_kb_def abc_data_def abc_coords_def adj_def)

text \<open>C6 as stated fails: the goal \<open>Z\<close> is in neither mapping, and the search under
  \<^verbatim>\<open>saltos\<close> returns the no-path result.\<close>

theorem unknown_goal_no_route:
  "stations (data (abc_kb abc_coords ''2'')) ''Z'' = None
   \<and> graph_kb (abc_kb abc_coords ''2'') ''Z'' = None
   \<and> a_star haversine (abc_kb abc_coords ''2'') ''A'' ''Z'' ''saltos'' =
        Some (Inr (None, None), abc_kb abc_coords ''2'')"
  by (simp add: a_star_def a_star_while.simps search_defs reconstruct.simps abc_kb_def
      abc_data_def abc_coords_def)

subsection \<open>Optimality\<close>
























end
